theory Spec2Isabelle
  imports Complex_Main
begin

section \<open>Constraint resolution (macro.ts)\<close>

text \<open>
  A constraint resolver is looked up by the constraint's id in the constraint registry and
  called with the transaction, the page, the shape, the canvas and the constraint. It
  mutates the transaction and the object graph and returns whether it changed something,
  or it throws. The registry and the resolvers are supplied by the shapes, so the model
  takes the combined lookup-and-call as a parameter: a function from the constraint, the
  shape and the state (transaction, page graph, canvas) to an outcome. A throwing
  resolver may have mutated the state before it threw, so both outcomes carry a state.
  A constraint id with no registered resolver is a call that throws at once.
\<close>

datatype 'st outcome = Returned bool 'st | Threw 'st

type_synonym ('c, 'sh, 'st) resolver = "'c \<Rightarrow> 'sh \<Rightarrow> 'st \<Rightarrow> 'st outcome"

text \<open>
  \<open>shape.constraints\<close> is a JavaScript array, an object that resolvers can change in
  place while \<open>forEach\<close> runs over it. Reading the field in a state gives the array
  object; the model represents the object by its content in every state, a list of
  slots of which \<open>None\<close> is a hole. So \<open>constraints st shape\<close> is the array that the
  field holds in the state \<open>st\<close>, and \<open>constraints st shape st'\<close> its content in \<open>st'\<close>:
  a resolver that assigns a new array to the field leaves the content of the old one
  as it is, a resolver that splices the array changes it.
\<close>

type_synonym ('c, 'sh, 'st) constraintsField = "'st \<Rightarrow> 'sh \<Rightarrow> 'st \<Rightarrow> 'c option list"

text \<open>
  \<open>arr.forEach(callback)\<close> with the callback of \<open>resolveShapeConstraints\<close>: the length of
  the array is read once, the indices \<open>k\<close> below it are visited in turn, and the
  callback is called for an index at which the array has an element when its turn
  comes. The call of the resolver is wrapped in try/catch; the catch branch only logs
  to the console. \<open>n\<close> is the number of indices still to visit.
\<close>

fun constraintsForEach ::
  "('c, 'sh, 'st) resolver \<Rightarrow> 'sh \<Rightarrow> ('st \<Rightarrow> 'c option list) \<Rightarrow> nat \<Rightarrow> nat \<Rightarrow> bool \<Rightarrow> 'st
     \<Rightarrow> bool \<times> 'st" where
  "constraintsForEach fn shape arr k 0 changed st = (changed, st)"
| "constraintsForEach fn shape arr k (Suc n) changed st =
     (if k < length (arr st) then
        (case arr st ! k of
           Some c \<Rightarrow>
             (case fn c shape st of
                Returned b st' \<Rightarrow> constraintsForEach fn shape arr (Suc k) n (b \<or> changed) st'
              | Threw st' \<Rightarrow> constraintsForEach fn shape arr (Suc k) n changed st')
         | None \<Rightarrow> constraintsForEach fn shape arr (Suc k) n changed st)
      else constraintsForEach fn shape arr (Suc k) n changed st)"

text \<open>\<open>resolveShapeConstraints(tx, page, shape, canvas)\<close>.\<close>

definition resolveShapeConstraints ::
  "('c, 'sh, 'st) resolver \<Rightarrow> ('c, 'sh, 'st) constraintsField \<Rightarrow> 'sh \<Rightarrow> 'st \<Rightarrow> bool \<times> 'st" where
  "resolveShapeConstraints fn constraints shape st =
     (let arr = constraints st shape
      in constraintsForEach fn shape arr 0 (length (arr st)) False st)"

text \<open>
  One \<open>page.traverse\<close> of \<open>resolveAllConstraints\<close>: every shape of the traversal is
  handed to \<open>resolveShapeConstraints\<close> and the flags are or-ed into \<open>changed\<close>.
\<close>

fun traverseShapes ::
  "('c, 'sh, 'st) resolver \<Rightarrow> ('c, 'sh, 'st) constraintsField \<Rightarrow> 'sh list \<Rightarrow> bool \<Rightarrow> 'st
     \<Rightarrow> bool \<times> 'st" where
  "traverseShapes fn constraints [] changed st = (changed, st)"
| "traverseShapes fn constraints (s # ss) changed st =
     (case resolveShapeConstraints fn constraints s st of
        (b, st') \<Rightarrow> traverseShapes fn constraints ss (b \<or> changed) st')"

text \<open>
  Modelled from the spec: \<open>Page.traverse\<close> is not part of the sources at hand; the spec
  describes it as a depth-first traversal that produces a finite sequence of entities.
  The model takes the sequence of shapes a traversal of the page visits as a function
  \<open>shapes\<close> of the state at the start of the traversal.
\<close>

definition traversal ::
  "('c, 'sh, 'st) resolver \<Rightarrow> ('c, 'sh, 'st) constraintsField \<Rightarrow> ('st \<Rightarrow> 'sh list) \<Rightarrow> 'st
     \<Rightarrow> bool \<times> 'st" where
  "traversal fn constraints shapes st = traverseShapes fn constraints (shapes st) False st"

text \<open>
  \<open>resolveAllConstraints(tx, page, canvas, maxIteration = 3)\<close>. The result is the returned
  flag, the state the call leaves behind, and the warnings written with \<open>console.warn\<close>
  (one entry per warning, holding the \<open>maxIteration\<close> of the message). The loop
  \<open>for (let i = 0; i < maxIteration; i++)\<close> is the recursion on the number of iterations
  that remain.
\<close>

fun resolveLoop ::
  "('st \<Rightarrow> bool \<times> 'st) \<Rightarrow> nat \<Rightarrow> nat \<Rightarrow> 'st \<Rightarrow> bool \<times> 'st \<times> nat list" where
  "resolveLoop trav maxIteration 0 st = (True, st, [maxIteration])"
| "resolveLoop trav maxIteration (Suc k) st =
     (case trav st of
        (changed, st') \<Rightarrow>
          if \<not> changed then (False, st', []) else resolveLoop trav maxIteration k st')"

definition resolveAllConstraints ::
  "('c, 'sh, 'st) resolver \<Rightarrow> ('c, 'sh, 'st) constraintsField \<Rightarrow> ('st \<Rightarrow> 'sh list) \<Rightarrow> nat \<Rightarrow> 'st
     \<Rightarrow> bool \<times> 'st \<times> nat list" where
  "resolveAllConstraints fn constraints shapes maxIteration st =
     resolveLoop (traversal fn constraints shapes) maxIteration maxIteration st"




text \<open>
  What an outcome leaves behind, and the flag it contributes: a resolver that threw
  contributes nothing to \<open>changed\<close>. \<open>caught fn\<close> is the resolver \<open>fn\<close> with every
  exception turned into a completed call that reports no change.
\<close>

definition outcomeState :: "'st outcome \<Rightarrow> 'st" where
  "outcomeState out = (case out of Returned b st' \<Rightarrow> st' | Threw st' \<Rightarrow> st')"

definition completedChanged :: "'st outcome \<Rightarrow> bool" where
  "completedChanged out = (case out of Returned b st' \<Rightarrow> b | Threw st' \<Rightarrow> False)"

definition caught :: "('c, 'sh, 'st) resolver \<Rightarrow> ('c, 'sh, 'st) resolver" where
  "caught fn c shape st =
     (case fn c shape st of Returned b st' \<Rightarrow> Returned b st' | Threw st' \<Rightarrow> Returned False st')"

text \<open>
  A resolver instrumented to record its invocations: the state is paired with the list
  of the constraints whose resolver has been called so far. \<open>loggedField\<close> is the field
  \<open>constraints\<close> read in such a paired state, and \<open>elements\<close> the elements of an array
  content, holes left out.
\<close>

definition logged :: "('c, 'sh, 'st) resolver \<Rightarrow> ('c, 'sh, 'st \<times> 'c list) resolver" where
  "logged fn c shape s =
     (case fn c shape (fst s) of
        Returned b st' \<Rightarrow> Returned b (st', snd s @ [c])
      | Threw st' \<Rightarrow> Threw (st', snd s @ [c]))"

definition loggedField ::
  "('c, 'sh, 'st) constraintsField \<Rightarrow> ('c, 'sh, 'st \<times> 'c list) constraintsField" where
  "loggedField constraints s shape s' = constraints (fst s) shape (fst s')"

definition elements :: "'c option list \<Rightarrow> 'c list" where
  "elements slots = concat (map (\<lambda>slot. case slot of Some c \<Rightarrow> [c] | None \<Rightarrow> []) slots)"

text \<open>
  The loop over a fixed list of constraints: what \<open>forEach\<close> amounts to while no
  resolver changes the array.
\<close>

fun visitAll ::
  "('c, 'sh, 'st) resolver \<Rightarrow> 'sh \<Rightarrow> 'c list \<Rightarrow> bool \<Rightarrow> 'st \<Rightarrow> bool \<times> 'st" where
  "visitAll fn shape [] changed st = (changed, st)"
| "visitAll fn shape (c # cs) changed st =
     (case fn c shape st of
        Returned b st' \<Rightarrow> visitAll fn shape cs (b \<or> changed) st'
      | Threw st' \<Rightarrow> visitAll fn shape cs changed st')"

subsection \<open>Example resolvers\<close>

text \<open>
  The state of the first examples is the number of mutations emitted into the
  transaction; the page has one shape, with one constraint or with three.
  \<open>settlingResolver\<close> emits a mutation and reports a change until two mutations were
  emitted; \<open>emitThenThrow\<close> emits a mutation and then throws; of the three constraints
  of \<open>brokenThenChanged\<close> the first throws and the second reports a change.
\<close>

definition settlingResolver :: "(unit, unit, nat) resolver" where
  "settlingResolver c shape n = (if n < 2 then Returned True (Suc n) else Returned False n)"

definition emitThenThrow :: "(unit, unit, nat) resolver" where
  "emitThenThrow c shape n = Threw (Suc n)"

definition brokenThenChanged :: "(nat, unit, nat) resolver" where
  "brokenThenChanged c shape n =
     (if c = 0 then Threw n else if c = 1 then Returned True (Suc n) else Returned False n)"

definition oneConstraint :: "(unit, unit, nat) constraintsField" where
  "oneConstraint st shape st' = [Some ()]"

definition threeConstraints :: "(nat, unit, nat) constraintsField" where
  "threeConstraints st shape st' = [Some 0, Some 1, Some 2]"

definition oneShape :: "nat \<Rightarrow> unit list" where
  "oneShape st = [()]"

text \<open>
  A shape whose state is its constraint array itself, changed in place: the resolver of
  constraint 0 removes the element behind it from the array and then throws; the
  resolver of constraint 1 reports a change, the resolver of constraint 2 does not.
\<close>

definition liveConstraints :: "(nat, unit, nat list) constraintsField" where
  "liveConstraints st shape st' = map Some st'"

definition dropNextThenThrow :: "(nat, unit, nat list) resolver" where
  "dropNextThenThrow c shape arr =
     (if c = 0 then Threw (take 1 arr @ drop 2 arr)
      else if c = 1 then Returned True arr
      else Returned False arr)"

section \<open>JavaScript values and arrays\<close>

text \<open>
  Numbers are modelled as exact rationals together with \<open>NaN\<close>: rounding, the
  infinities and the signed zero of IEEE doubles are outside the model. A field value
  is one of the primitive JSON values; \<open>undefined\<close> (also: a missing key, an array read
  out of range) is \<open>None\<close> of the option type.
\<close>

datatype jsnum = Num rat | NaN

datatype jsval = JNull | JBool bool | JNumber jsnum | JString string

text \<open>
  The conversion the arithmetic and relational operators apply to their operands. A
  string operand is not parsed: it counts as \<open>NaN\<close> (the bridge itself only ever writes
  numbers under \<open>parent:order\<close>).
\<close>

fun toNumber :: "jsval option \<Rightarrow> jsnum" where
  "toNumber None = NaN"
| "toNumber (Some JNull) = Num 0"
| "toNumber (Some (JBool b)) = Num (if b then 1 else 0)"
| "toNumber (Some (JNumber n)) = n"
| "toNumber (Some (JString s)) = NaN"

fun num_add :: "jsnum \<Rightarrow> jsnum \<Rightarrow> jsnum" where
  "num_add (Num a) (Num b) = Num (a + b)"
| "num_add _ _ = NaN"

fun num_sub :: "jsnum \<Rightarrow> jsnum \<Rightarrow> jsnum" where
  "num_sub (Num a) (Num b) = Num (a - b)"
| "num_sub _ _ = NaN"

fun num_half :: "jsnum \<Rightarrow> jsnum" where
  "num_half (Num a) = Num (a / 2)"
| "num_half NaN = NaN"

fun num_ge :: "jsnum \<Rightarrow> jsnum \<Rightarrow> bool" where
  "num_ge (Num a) (Num b) = (a \<ge> b)"
| "num_ge _ _ = False"

fun num_lt :: "jsnum \<Rightarrow> jsnum \<Rightarrow> bool" where
  "num_lt (Num a) (Num b) = (a < b)"
| "num_lt _ _ = False"

text \<open>\<open>if (v)\<close>: the values that count as true in a condition.\<close>

fun truthy :: "jsval option \<Rightarrow> bool" where
  "truthy None = False"
| "truthy (Some JNull) = False"
| "truthy (Some (JBool b)) = b"
| "truthy (Some (JNumber (Num r))) = (r \<noteq> 0)"
| "truthy (Some (JNumber NaN)) = False"
| "truthy (Some (JString s)) = (s \<noteq> [])"

text \<open>\<open>xs[i]\<close>: reading an array out of range gives \<open>undefined\<close>.\<close>

definition elemAt :: "'a list \<Rightarrow> int \<Rightarrow> 'a option" where
  "elemAt xs i = (if 0 \<le> i \<and> i < int (length xs) then Some (xs ! nat i) else None)"

text \<open>
  Reading an array of possibly undefined values: a slot that holds \<open>undefined\<close> and a
  read out of range both give \<open>undefined\<close>.
\<close>

definition valueAt :: "'a option list \<Rightarrow> int \<Rightarrow> 'a option" where
  "valueAt xs i = (case elemAt xs i of Some v \<Rightarrow> v | None \<Rightarrow> None)"

text \<open>\<open>xs.indexOf(x)\<close> and \<open>xs.findIndex(p)\<close>: the first index, or \<open>-1\<close>.\<close>

fun findIndex :: "('a \<Rightarrow> bool) \<Rightarrow> 'a list \<Rightarrow> int" where
  "findIndex p [] = - 1"
| "findIndex p (x # xs) =
     (if p x then 0 else (let i = findIndex p xs in if i < 0 then - 1 else i + 1))"

definition indexOf :: "'a \<Rightarrow> 'a list \<Rightarrow> int" where
  "indexOf x xs = findIndex (\<lambda>y. y = x) xs"

text \<open>
  \<open>xs.splice(start, deleteCount, ...items)\<close>: a negative \<open>start\<close> counts from the end
  of the array, and the start is clamped to the array.
\<close>

definition splice_js :: "int \<Rightarrow> nat \<Rightarrow> 'a list \<Rightarrow> 'a list \<Rightarrow> 'a list" where
  "splice_js start deleteCount items xs =
     (let n = int (length xs);
          s = nat (if start < 0 then max (n + start) 0 else min start n)
      in take s xs @ items @ drop (s + deleteCount) xs)"

section \<open>The replicated map\<close>

text \<open>
  Modelled from the spec: the replicated document (a Yjs \<open>Y.Map\<close> of \<open>Y.Map\<close>s) is a
  library outside the sources; the spec describes it as a map whose keys are entity ids
  and whose values are flat field maps. The outer map is an association list in
  iteration order: \<open>forEach\<close> visits the keys in the order of their first insertion, a
  key that is set again keeps its place, and a deleted key keeps its slot, which
  \<open>forEach\<close> and \<open>get\<close> pass over, and returns to it when it is set again. A slot is
  \<open>Some\<close> field map, or \<open>None\<close> once the key was deleted. The flat field map of one
  entity is a finite map. \<open>live\<close> builds a map without deleted keys.
\<close>

type_synonym oid = string

type_synonym yobj = "string \<rightharpoonup> jsval"

type_synonym ystore = "(oid \<times> yobj option) list"

definition yStore_get :: "ystore \<Rightarrow> oid \<Rightarrow> yobj option" where
  "yStore_get yStore k = (case map_of yStore k of Some slot \<Rightarrow> slot | None \<Rightarrow> None)"

fun yStore_set :: "oid \<Rightarrow> yobj \<Rightarrow> ystore \<Rightarrow> ystore" where
  "yStore_set k v [] = [(k, Some v)]"
| "yStore_set k v (e # es) = (if fst e = k then (k, Some v) # es else e # yStore_set k v es)"

fun yStore_delete :: "oid \<Rightarrow> ystore \<Rightarrow> ystore" where
  "yStore_delete k [] = []"
| "yStore_delete k (e # es) = (if fst e = k then (k, None) # es else e # yStore_delete k es)"

text \<open>\<open>yStore.forEach\<close>: the entries of the keys that are not deleted, in iteration order.\<close>

fun yStore_entries :: "ystore \<Rightarrow> (oid \<times> yobj) list" where
  "yStore_entries [] = []"
| "yStore_entries ((k, Some yObj) # es) = (k, yObj) # yStore_entries es"
| "yStore_entries ((k, None) # es) = yStore_entries es"

definition live :: "(oid \<times> yobj) list \<Rightarrow> ystore" where
  "live es = map (\<lambda>e. (fst e, Some (snd e))) es"

text \<open>
  \<open>yObj.set(key, value)\<close> stores the JSON values and \<open>undefined\<close>; for any other value
  (a function, a symbol, a bigint, an instance of a class) it throws the error
  \<open>Unexpected content type\<close>. No function of the bridge catches it, so encoding a
  transaction either completes or ends with that error; both results carry the
  replicated map as the call leaves it.
\<close>

datatype encoded = Done ystore | UnexpectedContentType ystore

definition mapOf :: "encoded \<Rightarrow> ystore" where
  "mapOf r = (case r of Done yStore \<Rightarrow> yStore | UnexpectedContentType yStore \<Rightarrow> yStore)"

definition thrown :: "encoded \<Rightarrow> bool" where
  "thrown r = (case r of Done yStore \<Rightarrow> False | UnexpectedContentType yStore \<Rightarrow> True)"

section \<open>The local object graph\<close>

text \<open>
  Modelled from the spec: the classes \<open>Obj\<close> and \<open>Store\<close> (core/obj, core/store) are not
  part of the sources. An entity has an immutable id, a back-reference to its parent, an
  owned sequence of children, value fields and reference fields; the store keeps an
  id index. \<open>getById\<close> reads the index, \<open>addToIndex\<close> and \<open>removeFromIndex\<close> change the
  index only. Objects are JavaScript references: the model keeps them in a heap of
  addresses, so that two objects with one id, and an object that left the index but is
  still referenced as a parent, stay apart. \<open>fresh\<close> is the next unused address.
\<close>

type_synonym addr = nat

record obj =
  oid :: oid
  parent :: "addr option"
  children :: "addr list"
  props :: "string \<rightharpoonup> jsval"
  refs :: "string \<rightharpoonup> addr"

record store =
  heap :: "addr \<Rightarrow> obj"
  idIndex :: "oid \<rightharpoonup> addr"
  fresh :: addr

text \<open>\<open>store.getById(v)\<close>: only a string is a key of the index.\<close>

fun getById :: "store \<Rightarrow> jsval option \<Rightarrow> addr option" where
  "getById st (Some (JString k)) = idIndex st k"
| "getById st _ = None"

definition addToIndex :: "addr \<Rightarrow> store \<Rightarrow> store" where
  "addToIndex a st = st\<lparr>idIndex := (idIndex st)(oid (heap st a) \<mapsto> a)\<rparr>"

definition removeFromIndex :: "addr \<Rightarrow> store \<Rightarrow> store" where
  "removeFromIndex a st = st\<lparr>idIndex := (idIndex st)(oid (heap st a) := None)\<rparr>"

text \<open>
  Modelled from the spec: \<open>instantiator.createFromJson\<close> and \<open>Obj.resolveRefs\<close> are not
  part of the sources. Decoding the flat field map stored under \<open>key\<close> allocates a new
  entity with that id, no parent and no children, whose value fields are the entries of
  the map; \<open>resolveRefs\<close> resolves the connector endpoint references \<open>head\<close> and \<open>tail\<close>
  through the id index.
\<close>

definition yObjToObj :: "store \<Rightarrow> oid \<Rightarrow> yobj \<Rightarrow> addr \<times> store" where
  "yObjToObj st key yObj =
     (let a = fresh st;
          ob = \<lparr>oid = key, parent = None, children = [], props = yObj, refs = Map.empty\<rparr>
      in (a, st\<lparr>heap := (heap st)(a := ob), fresh := Suc a\<rparr>))"

definition resolveRefs :: "addr \<Rightarrow> store \<Rightarrow> store" where
  "resolveRefs a st =
     st\<lparr>heap := (heap st)(a := (heap st a)\<lparr>refs :=
        (\<lambda>k. if k = ''head'' \<or> k = ''tail'' then getById st (props (heap st a) k) else None)\<rparr>)\<rparr>"

section \<open>Mutations, transactions and actions\<close>

text \<open>
  Modelled from the spec: core/transaction is not part of the sources. A mutation holds
  references to the objects it is about (\<open>mut.obj\<close>, \<open>mut.parent\<close>, the old and new
  value of a reference field), the field name and the old and new value of an
  assignment, and the position of a structural change. The old and the new value of an
  assignment are arbitrary values of the local object: either a value that the
  replicated map stores (a JSON value or \<open>undefined\<close>) or one that it does not.
\<close>

datatype anyval = Storable "jsval option" | NotStorable

datatype mutation =
    CREATE addr
  | DELETE addr
  | ASSIGN addr string anyval anyval
  | ASSIGN_REF addr string "addr option" "addr option"
  | INSERT_CHILD addr addr int
  | REMOVE_CHILD addr addr int
  | REORDER_CHILD addr addr int

record transaction =
  mutations :: "mutation list"

record action =
  transactions :: "transaction list"

section \<open>Encoding local transactions (yjs utilities)\<close>

text \<open>\<open>getYChildren(yStore, parentId)\<close>: the entries whose \<open>parent\<close> field is \<open>parentId\<close>.\<close>

definition getYChildren :: "ystore \<Rightarrow> jsval option \<Rightarrow> yobj list" where
  "getYChildren yStore parentId =
     map snd (filter (\<lambda>e. snd e ''parent'' = parentId) (yStore_entries yStore))"

text \<open>\<open>getParentOrder(yStore, parentId, position)\<close> of the yjs utilities.\<close>

definition getParentOrder :: "ystore \<Rightarrow> oid \<Rightarrow> int \<Rightarrow> jsnum" where
  "getParentOrder yStore parentId position =
     (let siblings = getYChildren yStore (Some (JString parentId));
          siblingOrders = map (\<lambda>yChild. yChild ''parent:order'') siblings
      in if length siblingOrders = 0 then Num 0
         else if position = 0 then
           num_sub (toNumber (valueAt siblingOrders 0)) (Num 1)
         else if position \<ge> int (length siblingOrders) then
           num_add (toNumber (valueAt siblingOrders (int (length siblingOrders) - 1))) (Num 1)
         else
           num_half (num_add (toNumber (valueAt siblingOrders (position - 1)))
                             (toNumber (valueAt siblingOrders position))))"

text \<open>
  \<open>objToYObj(yStore, obj)\<close>. \<open>obj.toJSON()\<close> is not part of the sources: the flat
  projection of each local object is the parameter \<open>toJSON\<close>, a map of JSON values, so
  that copying it into a new field map and storing that map does not throw. The local
  heap \<open>h\<close> is only read while a transaction is encoded.
\<close>

definition objToYObj :: "(addr \<Rightarrow> obj) \<Rightarrow> (addr \<Rightarrow> yobj) \<Rightarrow> ystore \<Rightarrow> addr \<Rightarrow> yobj" where
  "objToYObj h toJSON yStore a =
     (let yObj = toJSON a
      in case parent (h a) of
           Some p \<Rightarrow>
             (let position = indexOf a (children (h p));
                  order = getParentOrder yStore (oid (h p)) position
              in yObj(''parent:order'' \<mapsto> JNumber order))
         | None \<Rightarrow> yObj)"

text \<open>
  One iteration of the loop of \<open>applyTransaction(tx, yStore)\<close>: the switch. Only the
  \<open>yObj.set\<close> of the \<open>ASSIGN\<close> branch receives a value that is not made by the bridge
  itself.
\<close>

fun applyMutation :: "(addr \<Rightarrow> obj) \<Rightarrow> (addr \<Rightarrow> yobj) \<Rightarrow> mutation \<Rightarrow> ystore \<Rightarrow> encoded" where
  "applyMutation h toJSON (CREATE ob) yStore =
     Done (yStore_set (oid (h ob)) (objToYObj h toJSON yStore ob) yStore)"
| "applyMutation h toJSON (DELETE ob) yStore = Done (yStore_delete (oid (h ob)) yStore)"
| "applyMutation h toJSON (ASSIGN ob field oldValue newValue) yStore =
     (case yStore_get yStore (oid (h ob)) of
        Some yObj \<Rightarrow>
          (case newValue of
             Storable v \<Rightarrow> Done (yStore_set (oid (h ob)) (yObj(field := v)) yStore)
           | NotStorable \<Rightarrow> UnexpectedContentType yStore)
      | None \<Rightarrow> Done yStore)"
| "applyMutation h toJSON (ASSIGN_REF ob field oldValue newValue) yStore =
     (case (yStore_get yStore (oid (h ob)), newValue) of
        (Some yObj, Some r) \<Rightarrow>
          Done (yStore_set (oid (h ob)) (yObj(field \<mapsto> JString (oid (h r)))) yStore)
      | _ \<Rightarrow> Done yStore)"
| "applyMutation h toJSON (INSERT_CHILD par ob position) yStore =
     (case (yStore_get yStore (oid (h par)), yStore_get yStore (oid (h ob))) of
        (Some yParent, Some yObj) \<Rightarrow>
          (let yStore1 = yStore_set (oid (h ob)) (yObj(''parent'' \<mapsto> JString (oid (h par)))) yStore;
               order = getParentOrder yStore1 (oid (h par)) position
           in Done (yStore_set (oid (h ob))
                (yObj(''parent'' \<mapsto> JString (oid (h par)), ''parent:order'' \<mapsto> JNumber order))
                yStore1))
      | _ \<Rightarrow> Done yStore)"
| "applyMutation h toJSON (REMOVE_CHILD par ob position) yStore =
     (case (yStore_get yStore (oid (h par)), yStore_get yStore (oid (h ob))) of
        (Some yParent, Some yObj) \<Rightarrow>
          Done (yStore_set (oid (h ob)) (yObj(''parent'' := None, ''parent:order'' := None)) yStore)
      | _ \<Rightarrow> Done yStore)"
| "applyMutation h toJSON (REORDER_CHILD par ob position) yStore =
     (case (yStore_get yStore (oid (h par)), yStore_get yStore (oid (h ob))) of
        (Some yParent, Some yObj) \<Rightarrow> Done yStore
      | _ \<Rightarrow> Done yStore)"

text \<open>The loop over \<open>tx.mutations\<close>; an error ends it.\<close>

fun applyMutations ::
  "(addr \<Rightarrow> obj) \<Rightarrow> (addr \<Rightarrow> yobj) \<Rightarrow> mutation list \<Rightarrow> ystore \<Rightarrow> encoded" where
  "applyMutations h toJSON [] yStore = Done yStore"
| "applyMutations h toJSON (m # ms) yStore =
     (case applyMutation h toJSON m yStore of
        Done yStore' \<Rightarrow> applyMutations h toJSON ms yStore'
      | UnexpectedContentType yStore' \<Rightarrow> UnexpectedContentType yStore')"

definition applyTransaction ::
  "(addr \<Rightarrow> obj) \<Rightarrow> (addr \<Rightarrow> yobj) \<Rightarrow> transaction \<Rightarrow> ystore \<Rightarrow> encoded" where
  "applyTransaction h toJSON tx yStore =
     (if length (mutations tx) = 0 then Done yStore
      else applyMutations h toJSON (mutations tx) yStore)"



section \<open>Encoding local transactions (YjsSyncPlugin)\<close>

text \<open>
  \<open>getParentOrder(yObjMap, parent, position)\<close> of plugin-yjs-sync.ts. It reads the
  neighbours of \<open>position\<close> in the children of the local parent object.
\<close>

definition getParentOrder_plugin :: "(addr \<Rightarrow> obj) \<Rightarrow> ystore \<Rightarrow> addr \<Rightarrow> int \<Rightarrow> jsnum" where
  "getParentOrder_plugin h yObjMap par position =
     (let objPrev = (if position > 0 then elemAt (children (h par)) (position - 1) else None);
          objNext = (if position < int (length (children (h par)))
                     then elemAt (children (h par)) (position + 1) else None);
          yObjPrev = (case objPrev of Some a \<Rightarrow> yStore_get yObjMap (oid (h a)) | None \<Rightarrow> None);
          yObjNext = (case objNext of Some a \<Rightarrow> yStore_get yObjMap (oid (h a)) | None \<Rightarrow> None)
      in case (yObjNext, yObjPrev) of
           (Some yn, Some yp) \<Rightarrow>
             num_half (num_add (toNumber (yp ''parent:order'')) (toNumber (yn ''parent:order'')))
         | (Some yn, None) \<Rightarrow> num_sub (toNumber (yn ''parent:order'')) (Num 1)
         | (None, Some yp) \<Rightarrow> num_add (toNumber (yp ''parent:order'')) (Num 1)
         | (None, None) \<Rightarrow> Num 0)"

text \<open>
  The switch of \<open>YjsSyncPlugin.applyTransaction\<close>; \<open>objToYMap(obj)\<close> copies
  \<open>obj.toJSON()\<close>. \<open>this.yObjMap\<close> is the map that \<open>startProvider\<close> has obtained
  from the document.
\<close>

fun applyMutation_plugin ::
  "(addr \<Rightarrow> obj) \<Rightarrow> (addr \<Rightarrow> yobj) \<Rightarrow> mutation \<Rightarrow> ystore \<Rightarrow> encoded" where
  "applyMutation_plugin h toJSON (CREATE ob) yObjMap =
     Done (yStore_set (oid (h ob)) (toJSON ob) yObjMap)"
| "applyMutation_plugin h toJSON (DELETE ob) yObjMap = Done (yStore_delete (oid (h ob)) yObjMap)"
| "applyMutation_plugin h toJSON (ASSIGN ob field oldValue newValue) yObjMap =
     (case yStore_get yObjMap (oid (h ob)) of
        Some yObj \<Rightarrow>
          (case newValue of
             Storable v \<Rightarrow> Done (yStore_set (oid (h ob)) (yObj(field := v)) yObjMap)
           | NotStorable \<Rightarrow> UnexpectedContentType yObjMap)
      | None \<Rightarrow> Done yObjMap)"
| "applyMutation_plugin h toJSON (ASSIGN_REF ob field oldValue newValue) yObjMap =
     (case (yStore_get yObjMap (oid (h ob)), newValue) of
        (Some yObj, Some r) \<Rightarrow>
          Done (yStore_set (oid (h ob)) (yObj(field \<mapsto> JString (oid (h r)))) yObjMap)
      | _ \<Rightarrow> Done yObjMap)"
| "applyMutation_plugin h toJSON (INSERT_CHILD par ob position) yObjMap =
     (case (yStore_get yObjMap (oid (h par)), yStore_get yObjMap (oid (h ob))) of
        (Some yParent, Some yObj) \<Rightarrow>
          (let yObjMap1 =
                 yStore_set (oid (h ob)) (yObj(''parent'' \<mapsto> JString (oid (h par)))) yObjMap;
               order = getParentOrder_plugin h yObjMap1 par position
           in Done (yStore_set (oid (h ob))
                (yObj(''parent'' \<mapsto> JString (oid (h par)), ''parent:order'' \<mapsto> JNumber order))
                yObjMap1))
      | _ \<Rightarrow> Done yObjMap)"
| "applyMutation_plugin h toJSON (REMOVE_CHILD par ob position) yObjMap =
     (case (yStore_get yObjMap (oid (h par)), yStore_get yObjMap (oid (h ob))) of
        (Some yParent, Some yObj) \<Rightarrow>
          Done (yStore_set (oid (h ob)) (yObj(''parent'' := None, ''parent:order'' := None))
                  yObjMap)
      | _ \<Rightarrow> Done yObjMap)"
| "applyMutation_plugin h toJSON (REORDER_CHILD par ob position) yObjMap =
     (case (yStore_get yObjMap (oid (h par)), yStore_get yObjMap (oid (h ob))) of
        (Some yParent, Some yObj) \<Rightarrow> Done yObjMap
      | _ \<Rightarrow> Done yObjMap)"

fun applyMutations_plugin ::
  "(addr \<Rightarrow> obj) \<Rightarrow> (addr \<Rightarrow> yobj) \<Rightarrow> mutation list \<Rightarrow> ystore \<Rightarrow> encoded" where
  "applyMutations_plugin h toJSON [] yObjMap = Done yObjMap"
| "applyMutations_plugin h toJSON (m # ms) yObjMap =
     (case applyMutation_plugin h toJSON m yObjMap of
        Done yObjMap' \<Rightarrow> applyMutations_plugin h toJSON ms yObjMap'
      | UnexpectedContentType yObjMap' \<Rightarrow> UnexpectedContentType yObjMap')"

definition applyTransaction_plugin ::
  "(addr \<Rightarrow> obj) \<Rightarrow> (addr \<Rightarrow> yobj) \<Rightarrow> transaction \<Rightarrow> ystore \<Rightarrow> encoded" where
  "applyTransaction_plugin h toJSON tx yObjMap =
     (if length (mutations tx) = 0 then Done yObjMap
      else applyMutations_plugin h toJSON (mutations tx) yObjMap)"







fun redoEach ::
  "(addr \<Rightarrow> obj) \<Rightarrow> (addr \<Rightarrow> yobj) \<Rightarrow> transaction list \<Rightarrow> ystore \<Rightarrow> encoded" where
  "redoEach h toJSON [] yObjMap = Done yObjMap"
| "redoEach h toJSON (tx # txs) yObjMap =
     (case applyTransaction_plugin h toJSON tx yObjMap of
        Done yObjMap' \<Rightarrow> redoEach h toJSON txs yObjMap'
      | UnexpectedContentType yObjMap' \<Rightarrow> UnexpectedContentType yObjMap')"

definition onRedo :: "(addr \<Rightarrow> obj) \<Rightarrow> (addr \<Rightarrow> yobj) \<Rightarrow> action \<Rightarrow> ystore \<Rightarrow> encoded" where
  "onRedo h toJSON act yObjMap = redoEach h toJSON (transactions act) yObjMap"




section \<open>Decoding remote changes\<close>

text \<open>
  A change notification of the replicated document: its target is the outer map or the
  field map of one entity; \<open>changes\<close> is \<open>event.changes.keys\<close> (each changed key with its
  action) and \<open>keysChanged\<close> is \<open>event.keysChanged\<close>.
\<close>

datatype change_action = Add | Update | Delete

datatype target = TheStore | AnObj yobj

record yevent =
  target :: target
  changes :: "(string \<times> change_action) list"
  keysChanged :: "string list"

text \<open>\<open>yStore.get(v)\<close> for a key that was read from a field: only a string is a key.\<close>

fun yStore_getV :: "ystore \<Rightarrow> jsval option \<Rightarrow> yobj option" where
  "yStore_getV yStore (Some (JString k)) = yStore_get yStore k"
| "yStore_getV yStore _ = None"

text \<open>\<open>o >= order\<close> on two field values.\<close>

definition js_ge :: "jsval option \<Rightarrow> jsval option \<Rightarrow> bool" where
  "js_ge a b = num_ge (toNumber a) (toNumber b)"

text \<open>\<open>p.children.splice(p.children.indexOf(a), 1)\<close> and \<open>p.children.push(a)\<close>.\<close>

definition removeFromChildren :: "addr \<Rightarrow> addr \<Rightarrow> (addr \<Rightarrow> obj) \<Rightarrow> (addr \<Rightarrow> obj)" where
  "removeFromChildren p a h =
     h(p := (h p)\<lparr>children := splice_js (indexOf a (children (h p))) 1 [] (children (h p))\<rparr>)"

definition pushChild :: "addr \<Rightarrow> addr \<Rightarrow> (addr \<Rightarrow> obj) \<Rightarrow> (addr \<Rightarrow> obj)" where
  "pushChild p a h = h(p := (h p)\<lparr>children := children (h p) @ [a]\<rparr>)"

definition spliceChild :: "addr \<Rightarrow> int \<Rightarrow> addr \<Rightarrow> (addr \<Rightarrow> obj) \<Rightarrow> (addr \<Rightarrow> obj)" where
  "spliceChild p position a h =
     h(p := (h p)\<lparr>children := splice_js position 0 [a] (children (h p))\<rparr>)"

definition setParentRef :: "addr \<Rightarrow> addr option \<Rightarrow> (addr \<Rightarrow> obj) \<Rightarrow> (addr \<Rightarrow> obj)" where
  "setParentRef a p h = h(a := (h a)\<lparr>parent := p\<rparr>)"

subsection \<open>yjs utilities\<close>

text \<open>\<open>setParent(store, yStore, obj, parentId, parentOrder)\<close>.\<close>

definition setParent ::
  "store \<Rightarrow> ystore \<Rightarrow> addr \<Rightarrow> jsval option \<Rightarrow> jsval option \<Rightarrow> store" where
  "setParent st yStore a parentId parentOrder =
     (let h = heap st;
          h1 = (case parent (h a) of
                  Some p \<Rightarrow>
                    if Some (JString (oid (h p))) \<noteq> parentId then removeFromChildren p a h else h
                | None \<Rightarrow> h);
          h2 = (if truthy parentId then
                  (case getById st parentId of
                     Some p \<Rightarrow>
                       (let h' = setParentRef a (Some p) h1
                        in if indexOf a (children (h' p)) < 0 then
                             (let siblings = getYChildren yStore parentId;
                                  siblingOrders = map (\<lambda>yChild. yChild ''parent:order'') siblings;
                                  position = findIndex (\<lambda>v. js_ge v parentOrder) siblingOrders
                              in if position < 0 then pushChild p a h'
                                 else spliceChild p position a h')
                           else h')
                   | None \<Rightarrow> setParentRef a None h1)
                else setParentRef a None h1)
      in st\<lparr>heap := h2\<rparr>)"

text \<open>
  The branch of \<open>applyYjsEvent\<close> for a deleted key, once the local object is found; the
  same statements make up the delete branch of the plugin's observer.
\<close>

definition deleteObj :: "addr \<Rightarrow> store \<Rightarrow> store" where
  "deleteObj a st =
     (let h = heap st;
          h1 = (case parent (h a) of
                  Some p \<Rightarrow> setParentRef a None (removeFromChildren p a h)
                | None \<Rightarrow> h)
      in removeFromIndex a (st\<lparr>heap := h1\<rparr>))"

text \<open>
  \<open>applyYjsEvent\<close>, a change of the outer map: one step of
  \<open>event.changes.keys.forEach\<close>. The caller's callback \<open>onObjCreate\<close> is not modelled.
\<close>

fun applyStoreChange :: "ystore \<Rightarrow> string \<times> change_action \<Rightarrow> store \<Rightarrow> store" where
  "applyStoreChange yStore (key, Add) st =
     (case (getById st (Some (JString key)), yStore_get yStore key) of
        (None, Some yObj) \<Rightarrow>
          (case yObjToObj st key yObj of
             (a, st1) \<Rightarrow>
               setParent (addToIndex a (resolveRefs a st1)) yStore a
                 (yObj ''parent'') (yObj ''parent:order''))
      | _ \<Rightarrow> st)"
| "applyStoreChange yStore (key, Delete) st =
     (case getById st (Some (JString key)) of
        Some a \<Rightarrow> deleteObj a st
      | None \<Rightarrow> st)"
| "applyStoreChange yStore (key, Update) st = st"

text \<open>
  \<open>applyYjsEvent\<close>, a change of one entity's field map: the body of the loop over
  \<open>keysChanged\<close>. Keys other than \<open>parent\<close>, \<open>head\<close> and \<open>tail\<close> are written to the
  object's value fields.
\<close>

definition setRef :: "addr \<Rightarrow> string \<Rightarrow> addr option \<Rightarrow> store \<Rightarrow> store" where
  "setRef a key r st = st\<lparr>heap := (heap st)(a := (heap st a)\<lparr>refs := (refs (heap st a))(key := r)\<rparr>)\<rparr>"

definition setProp :: "addr \<Rightarrow> string \<Rightarrow> jsval option \<Rightarrow> store \<Rightarrow> store" where
  "setProp a key v st = st\<lparr>heap := (heap st)(a := (heap st a)\<lparr>props := (props (heap st a))(key := v)\<rparr>)\<rparr>"

definition updateKey :: "ystore \<Rightarrow> yobj \<Rightarrow> addr \<Rightarrow> string \<Rightarrow> store \<Rightarrow> store" where
  "updateKey yStore yObj a key st =
     (if key = ''parent'' then setParent st yStore a (yObj ''parent'') (yObj ''parent:order'')
      else if key = ''head'' \<or> key = ''tail'' then
        (if truthy (yObj key) then setRef a key (getById st (yObj key)) st
         else setRef a key None st)
      else setProp a key (yObj key) st)"

fun updateKeys :: "ystore \<Rightarrow> yobj \<Rightarrow> addr \<Rightarrow> string list \<Rightarrow> store \<Rightarrow> store" where
  "updateKeys yStore yObj a [] st = st"
| "updateKeys yStore yObj a (key # keys) st =
     updateKeys yStore yObj a keys (updateKey yStore yObj a key st)"

fun applyObjChange ::
  "ystore \<Rightarrow> yobj \<Rightarrow> string list \<Rightarrow> string \<times> change_action \<Rightarrow> store \<Rightarrow> store" where
  "applyObjChange yStore tgt keys (key, Update) st =
     (case (getById st (tgt ''id''), yStore_getV yStore (tgt ''id'')) of
        (Some a, Some yObj) \<Rightarrow> updateKeys yStore yObj a keys st
      | _ \<Rightarrow> st)"
| "applyObjChange yStore tgt keys (key, _) st = st"

definition applyYjsEvent :: "yevent \<Rightarrow> store \<Rightarrow> ystore \<Rightarrow> store" where
  "applyYjsEvent event st yStore =
     (case target event of
        TheStore \<Rightarrow> foldl (\<lambda>s c. applyStoreChange yStore c s) st (changes event)
      | AnObj tgt \<Rightarrow>
          foldl (\<lambda>s c. applyObjChange yStore tgt (keysChanged event) c s) st (changes event))"

subsection \<open>YjsSyncPlugin\<close>

text \<open>
  The observer that \<open>YjsSyncPlugin.listen\<close> registers with \<open>observeDeep\<close>. A changed key
  of the outer map is a creation when the map has an entry for it and a deletion
  otherwise. Setting the document and the current page of the editor, and repainting,
  are not modelled.
\<close>

definition createObj_plugin :: "ystore \<Rightarrow> oid \<Rightarrow> yobj \<Rightarrow> store \<Rightarrow> store" where
  "createObj_plugin yObjMap key yObj st =
     (case getById st (Some (JString key)) of
        None \<Rightarrow>
          (case yObjToObj st key yObj of
             (a, st1) \<Rightarrow>
               (let st3 = addToIndex a (resolveRefs a st1);
                    parentId = yObj ''parent''
                in case getById st3 parentId of
                     Some p \<Rightarrow>
                       (let h' = setParentRef a (Some p) (heap st3);
                            order = yObj ''parent:order'';
                            yChildren = getYChildren yObjMap parentId;
                            orders = map (\<lambda>yChild. yChild ''parent:order'') yChildren;
                            position = findIndex (\<lambda>v. js_ge v order) orders
                        in st3\<lparr>heap := spliceChild p position a h'\<rparr>)
                   | None \<Rightarrow> st3))
      | Some a \<Rightarrow> st)"

definition storeKeyChanged_plugin :: "ystore \<Rightarrow> string \<Rightarrow> store \<Rightarrow> store" where
  "storeKeyChanged_plugin yObjMap key st =
     (case yStore_get yObjMap key of
        Some yObj \<Rightarrow> createObj_plugin yObjMap key yObj st
      | None \<Rightarrow>
          (case getById st (Some (JString key)) of
             Some a \<Rightarrow> deleteObj a st
           | None \<Rightarrow> st))"

definition updateKey_plugin :: "yobj \<Rightarrow> addr \<Rightarrow> string \<Rightarrow> store \<Rightarrow> store" where
  "updateKey_plugin yObj a key st =
     (if key = ''parent'' then
        (case getById st (yObj ''parent'') of
           Some p \<Rightarrow> st\<lparr>heap := setParentRef a (Some p) (pushChild p a (heap st))\<rparr>
         | None \<Rightarrow>
             (let h1 = (case parent (heap st a) of
                          Some q \<Rightarrow> removeFromChildren q a (heap st)
                        | None \<Rightarrow> heap st)
              in st\<lparr>heap := setParentRef a None h1\<rparr>))
      else if key = ''head'' \<or> key = ''tail'' then setRef a key (getById st (yObj key)) st
      else setProp a key (yObj key) st)"

fun updateKeys_plugin :: "yobj \<Rightarrow> addr \<Rightarrow> string list \<Rightarrow> store \<Rightarrow> store" where
  "updateKeys_plugin yObj a [] st = st"
| "updateKeys_plugin yObj a (key # keys) st =
     updateKeys_plugin yObj a keys (updateKey_plugin yObj a key st)"

definition handleEvent_plugin :: "ystore \<Rightarrow> yevent \<Rightarrow> store \<Rightarrow> store" where
  "handleEvent_plugin yObjMap event st =
     (case target event of
        TheStore \<Rightarrow> foldl (\<lambda>s key. storeKeyChanged_plugin yObjMap key s) st (keysChanged event)
      | AnObj tgt \<Rightarrow>
          (case (getById st (tgt ''id''), yStore_getV yObjMap (tgt ''id'')) of
             (Some a, Some yObj) \<Rightarrow> updateKeys_plugin yObj a (keysChanged event) st
           | _ \<Rightarrow> st))"

definition observeDeep_plugin :: "ystore \<Rightarrow> yevent list \<Rightarrow> bool \<Rightarrow> store \<Rightarrow> store" where
  "observeDeep_plugin yObjMap events local st =
     (if \<not> local then foldl (\<lambda>s event. handleEvent_plugin yObjMap event s) st events else st)"

section \<open>Structure of the local graph\<close>

text \<open>
  The parent/children relation of the entities of the index: a parent lists a child
  exactly when the child's back-reference names that parent.
\<close>

definition parentChildrenAgree :: "store \<Rightarrow> bool" where
  "parentChildrenAgree st =
     (\<forall>p \<in> ran (idIndex st). \<forall>c \<in> ran (idIndex st).
        (c \<in> set (children (heap st p))) = (parent (heap st c) = Some p))"

section \<open>Well-formed stores\<close>

text \<open>
  A store is well formed when the index maps every key to an entity with that id, no
  entity of the index has the empty id, every entity of the index lists each child
  once, and parents and children agree. \<open>detached\<close> is the former parent that
  \<open>setParent\<close> removes the entity from, \<open>newParent\<close> the parent it resolves, and
  \<open>afterDetach\<close> the children of an entity once the detach step is done.
\<close>

definition storeWellFormed :: "store \<Rightarrow> bool" where
  "storeWellFormed st =
     ((\<forall>k a. idIndex st k = Some a \<longrightarrow> oid (heap st a) = k)
      \<and> idIndex st [] = None
      \<and> (\<forall>p \<in> ran (idIndex st). distinct (children (heap st p)))
      \<and> parentChildrenAgree st)"

definition detached :: "(addr \<Rightarrow> obj) \<Rightarrow> addr \<Rightarrow> jsval option \<Rightarrow> addr option" where
  "detached h a parentId =
     (case parent (h a) of
        Some p \<Rightarrow> if Some (JString (oid (h p))) \<noteq> parentId then Some p else None
      | None \<Rightarrow> None)"

definition newParent :: "store \<Rightarrow> jsval option \<Rightarrow> addr option" where
  "newParent st parentId = (if truthy parentId then getById st parentId else None)"

definition afterDetach :: "(addr \<Rightarrow> obj) \<Rightarrow> addr \<Rightarrow> jsval option \<Rightarrow> addr \<Rightarrow> addr list" where
  "afterDetach h a parentId q =
     (if detached h a parentId = Some q
      then splice_js (indexOf a (children (h q))) 1 [] (children (h q))
      else children (h q))"

section \<open>Example documents\<close>

text \<open>
  Small local graphs and replicated maps on which the functions above are evaluated.
  \<open>mkObj\<close> is an entity without value fields, \<open>idOnly\<close> the flat map of an entity that
  is not attached, \<open>childEntry\<close> the flat map of an attached entity, and \<open>idJSON\<close> a
  \<open>toJSON\<close> that projects an object to its id.
\<close>

definition mkObj :: "oid \<Rightarrow> addr option \<Rightarrow> addr list \<Rightarrow> obj" where
  "mkObj i p cs = \<lparr>oid = i, parent = p, children = cs, props = Map.empty, refs = Map.empty\<rparr>"

definition idOnly :: "oid \<Rightarrow> yobj" where
  "idOnly i = [''id'' \<mapsto> JString i]"

definition childEntry :: "oid \<Rightarrow> oid \<Rightarrow> rat \<Rightarrow> yobj" where
  "childEntry i p r =
     [''id'' \<mapsto> JString i, ''parent'' \<mapsto> JString p, ''parent:order'' \<mapsto> JNumber (Num r)]"

definition idJSON :: "(addr \<Rightarrow> obj) \<Rightarrow> addr \<Rightarrow> yobj" where
  "idJSON h a = idOnly (oid (h a))"

definition orderOf :: "ystore \<Rightarrow> oid \<Rightarrow> jsval option" where
  "orderOf yStore k = (case yStore_get yStore k of Some yObj \<Rightarrow> yObj ''parent:order'' | None \<Rightarrow> None)"

text \<open>
  The first child: the local parent \<open>P\<close> (address 0) has the single child \<open>X\<close>
  (address 1); the replicated map holds both entities, \<open>X\<close> not yet attached.
\<close>

definition firstChildHeap :: "addr \<Rightarrow> obj" where
  "firstChildHeap a = (if a = 0 then mkObj ''P'' None [1] else mkObj ''X'' (Some 0) [])"

definition firstChildMap :: ystore where
  "firstChildMap = live [(''P'', idOnly ''P''), (''X'', idOnly ''X'')]"

text \<open>
  An insertion at the end: the local children of \<open>P\<close> are \<open>A\<close>, \<open>B\<close> and the new \<open>X\<close>
  (addresses 1, 2, 3). \<open>B\<close> was created before \<open>A\<close>, which was then inserted in front of
  it, so the replicated map lists \<open>B\<close> (order 0) before \<open>A\<close> (order -1).
\<close>

definition endHeap :: "addr \<Rightarrow> obj" where
  "endHeap a =
     (if a = 0 then mkObj ''P'' None [1, 2, 3]
      else if a = 1 then mkObj ''A'' (Some 0) []
      else if a = 2 then mkObj ''B'' (Some 0) []
      else mkObj ''X'' (Some 0) [])"

definition endMap :: ystore where
  "endMap =
     live [(''P'', idOnly ''P''), (''B'', childEntry ''B'' ''P'' 0),
           (''A'', childEntry ''A'' ''P'' (- 1))]"

text \<open>
  The scenario of the spec: siblings \<open>A\<close>, \<open>B\<close>, \<open>C\<close> with the order keys 0, 1, 2 and a
  new sibling \<open>X\<close> (address 4) inserted at position 1.
\<close>

definition midHeap :: "addr \<Rightarrow> obj" where
  "midHeap a =
     (if a = 0 then mkObj ''P'' None [1, 4, 2, 3]
      else if a = 1 then mkObj ''A'' (Some 0) []
      else if a = 2 then mkObj ''B'' (Some 0) []
      else if a = 3 then mkObj ''C'' (Some 0) []
      else mkObj ''X'' (Some 0) [])"

definition midMap :: ystore where
  "midMap =
     live [(''P'', idOnly ''P''), (''A'', childEntry ''A'' ''P'' 0), (''B'', childEntry ''B'' ''P'' 1),
           (''C'', childEntry ''C'' ''P'' 2), (''X'', idOnly ''X'')]"

text \<open>
  A late sibling: a peer created \<open>A\<close> and \<open>B\<close> under \<open>P\<close>, inserted \<open>X\<close> between them
  (order 1/2) and then \<open>Z\<close> between \<open>X\<close> and \<open>B\<close> (order 3/4); the replicated map lists
  the entities in the order of their creation. The local store has materialized
  \<open>A\<close>, \<open>X\<close>, \<open>B\<close> (addresses 1, 2, 3) in this order, and the notification that the key
  \<open>Z\<close> was added arrives.
\<close>

definition lateHeap :: "addr \<Rightarrow> obj" where
  "lateHeap a =
     (if a = 0 then mkObj ''P'' None [1, 2, 3]
      else if a = 1 then mkObj ''A'' (Some 0) []
      else if a = 2 then mkObj ''X'' (Some 0) []
      else if a = 3 then mkObj ''B'' (Some 0) []
      else mkObj [] None [])"

definition lateStore :: store where
  "lateStore =
     \<lparr>heap = lateHeap, idIndex = [''P'' \<mapsto> 0, ''A'' \<mapsto> 1, ''X'' \<mapsto> 2, ''B'' \<mapsto> 3], fresh = 4\<rparr>"

definition lateMap :: ystore where
  "lateMap =
     live [(''P'', idOnly ''P''), (''A'', childEntry ''A'' ''P'' 0), (''B'', childEntry ''B'' ''P'' 1),
           (''X'', childEntry ''X'' ''P'' (1 / 2)), (''Z'', childEntry ''Z'' ''P'' (3 / 4))]"

definition lateEvent :: yevent where
  "lateEvent = \<lparr>target = TheStore, changes = [(''Z'', Add)], keysChanged = [''Z'']\<rparr>"

text \<open>
  A move: locally \<open>X\<close> (address 2) is the child of \<open>P1\<close> (address 0) and \<open>P2\<close>
  (address 1) has no children; a peer moved \<open>X\<close> under \<open>P2\<close>, and the notification that
  the field \<open>parent\<close> of \<open>X\<close> was updated arrives.
\<close>

definition moveHeap :: "addr \<Rightarrow> obj" where
  "moveHeap a =
     (if a = 0 then mkObj ''P1'' None [2]
      else if a = 1 then mkObj ''P2'' None []
      else if a = 2 then mkObj ''X'' (Some 0) []
      else mkObj [] None [])"

definition moveStore :: store where
  "moveStore = \<lparr>heap = moveHeap, idIndex = [''P1'' \<mapsto> 0, ''P2'' \<mapsto> 1, ''X'' \<mapsto> 2], fresh = 3\<rparr>"

definition moveMap :: ystore where
  "moveMap =
     live [(''P1'', idOnly ''P1''), (''P2'', idOnly ''P2''), (''X'', childEntry ''X'' ''P2'' 0)]"

definition moveEvent :: yevent where
  "moveEvent =
     \<lparr>target = AnObj (childEntry ''X'' ''P2'' 0), changes = [(''parent'', Update)],
      keysChanged = [''parent'']\<rparr>"

text \<open>
  An action of two transactions that assign the field \<open>w\<close> of \<open>X\<close> three times
  (1 to 2, then 2 to 3 and 3 to 4), and the replicated map after the action.
\<close>

definition widthValue :: "rat \<Rightarrow> jsval option" where
  "widthValue r = Some (JNumber (Num r))"

definition assignAction :: action where
  "assignAction =
     \<lparr>transactions =
        [\<lparr>mutations = [ASSIGN 1 ''w'' (Storable (widthValue 1)) (Storable (widthValue 2))]\<rparr>,
         \<lparr>mutations = [ASSIGN 1 ''w'' (Storable (widthValue 2)) (Storable (widthValue 3)),
                       ASSIGN 1 ''w'' (Storable (widthValue 3)) (Storable (widthValue 4))]\<rparr>]\<rparr>"

definition assignedMap :: ystore where
  "assignedMap =
     live [(''P'', idOnly ''P''), (''X'', (idOnly ''X'')(''w'' \<mapsto> JNumber (Num 4)))]"

definition fieldOf :: "ystore \<Rightarrow> oid \<Rightarrow> string \<Rightarrow> jsval option" where
  "fieldOf yStore k field = (case yStore_get yStore k of Some yObj \<Rightarrow> yObj field | None \<Rightarrow> None)"















text \<open>
  The same four creations arriving in one notification at a peer that has materialized
  the parent \<open>P\<close> only. \<open>childIds\<close> reads the ids of the children of an entity.
\<close>

definition onlyParentStore :: store where
  "onlyParentStore =
     \<lparr>heap = (\<lambda>a. if a = 0 then mkObj ''P'' None [] else mkObj [] None []),
      idIndex = [''P'' \<mapsto> 0], fresh = 1\<rparr>"

definition batchEvent :: yevent where
  "batchEvent =
     \<lparr>target = TheStore,
      changes = [(''A'', Add), (''B'', Add), (''X'', Add), (''Z'', Add)],
      keysChanged = [''A'', ''B'', ''X'', ''Z'']\<rparr>"

definition childIds :: "store \<Rightarrow> addr \<Rightarrow> oid list" where
  "childIds st p = map (\<lambda>c. oid (heap st c)) (children (heap st p))"

section \<open>Properties of constraint resolution\<close>

lemma visitAll_logged:
  "visitAll (logged fn) shape cs changed (st, calls) =
     (fst (visitAll fn shape cs changed st),
      (snd (visitAll fn shape cs changed st), calls @ cs))"
proof (induction cs arbitrary: changed st calls)
  case Nil
  then show ?case by simp
next
  case (Cons c cs)
  show ?case
  proof (cases "fn c shape st")
    case (Returned b st')
    then have "logged fn c shape (st, calls) = Returned b (st', calls @ [c])"
      by (simp add: logged_def)
    with Returned show ?thesis by (simp add: Cons.IH)
  next
    case (Threw st')
    then have "logged fn c shape (st, calls) = Threw (st', calls @ [c])"
      by (simp add: logged_def)
    with Threw show ?thesis by (simp add: Cons.IH)
  qed
qed

lemma visitAll_state:
  "snd (visitAll fn shape cs changed st) =
     foldl (\<lambda>s c. outcomeState (fn c shape s)) st cs"
proof (induction cs arbitrary: changed st)
  case Nil
  then show ?case by simp
next
  case (Cons c cs)
  show ?case
    by (cases "fn c shape st") (simp_all add: outcomeState_def Cons.IH)
qed

lemma ex_less_Suc: "(\<exists>i<Suc n. P i) = (P 0 \<or> (\<exists>i<n. P (Suc i)))"
  by (metis less_Suc_eq_0_disj)


lemma visitAll_flag:
  "fst (visitAll fn shape cs changed st) =
     (changed \<or> (\<exists>i<length cs. completedChanged
        (fn (cs ! i) shape (foldl (\<lambda>s c. outcomeState (fn c shape s)) st (take i cs)))))"
proof (induction cs arbitrary: changed st)
  case Nil
  then show ?case by simp
next
  case (Cons c cs)
  show ?case
    by (cases "fn c shape st")
       (auto simp add: outcomeState_def completedChanged_def Cons.IH ex_less_Suc)
qed

text \<open>
  While no resolver changes the array, \<open>forEach\<close> visits the elements that the array
  holds from the current index on.
\<close>

lemma elements_Cons_Some [simp]: "elements (Some c # slots) = c # elements slots"
  by (simp add: elements_def)

lemma elements_Cons_None [simp]: "elements (None # slots) = elements slots"
  by (simp add: elements_def)

lemma elements_Nil [simp]: "elements [] = []"
  by (simp add: elements_def)

lemma forEach_stable:
  assumes stable: "\<forall>c s. arr (outcomeState (fn c shape s)) = arr s"
  shows "constraintsForEach fn shape arr k n changed st =
           visitAll fn shape (elements (take n (drop k (arr st)))) changed st"
proof (induction n arbitrary: k changed st)
  case 0
  then show ?case by simp
next
  case (Suc n)
  show ?case
  proof (cases "k < length (arr st)")
    case False
    then have "drop k (arr st) = []" "drop (Suc k) (arr st) = []" by simp_all
    with False Suc.IH[of "Suc k" changed st] show ?thesis by simp
  next
    case True
    then have split: "take (Suc n) (drop k (arr st)) = arr st ! k # take n (drop (Suc k) (arr st))"
      by (simp add: Cons_nth_drop_Suc [symmetric])
    show ?thesis
    proof (cases "arr st ! k")
      case None
      with True split Suc.IH[of "Suc k" changed st] show ?thesis by simp
    next
      case (Some c)
      show ?thesis
      proof (cases "fn c shape st")
        case (Returned b st')
        with stable have "arr st' = arr st"
          by (metis outcomeState_def outcome.simps(5))
        with True split Some Returned Suc.IH[of "Suc k" "b \<or> changed" st'] show ?thesis
          by simp
      next
        case (Threw st')
        with stable have "arr st' = arr st"
          by (metis outcomeState_def outcome.simps(6))
        with True split Some Threw Suc.IH[of "Suc k" changed st'] show ?thesis
          by simp
      qed
    qed
  qed
qed

lemma forEach_caught:
  "constraintsForEach (caught fn) shape arr k n changed st =
     constraintsForEach fn shape arr k n changed st"
proof (induction n arbitrary: k changed st)
  case 0
  then show ?case by simp
next
  case (Suc n)
  show ?case
  proof (cases "k < length (arr st)")
    case False
    with Suc.IH show ?thesis by simp
  next
    case True
    show ?thesis
    proof (cases "arr st ! k")
      case None
      with True Suc.IH show ?thesis by simp
    next
      case (Some c)
      with True Suc.IH show ?thesis
        by (cases "fn c shape st") (simp_all add: caught_def)
    qed
  qed
qed

lemma traverse_state:
  "snd (traverseShapes fn constraints ss changed st) =
     foldl (\<lambda>s sh. snd (resolveShapeConstraints fn constraints sh s)) st ss"
proof (induction ss arbitrary: changed st)
  case Nil
  then show ?case by simp
next
  case (Cons s ss)
  show ?case
    by (cases "resolveShapeConstraints fn constraints s st") (simp add: Cons.IH)
qed

lemma traverse_flag:
  "fst (traverseShapes fn constraints ss changed st) =
     (changed \<or> (\<exists>i<length ss. fst (resolveShapeConstraints fn constraints (ss ! i)
        (foldl (\<lambda>s sh. snd (resolveShapeConstraints fn constraints sh s)) st (take i ss)))))"
proof (induction ss arbitrary: changed st)
  case Nil
  then show ?case by simp
next
  case (Cons s ss)
  show ?case
    by (cases "resolveShapeConstraints fn constraints s st") (auto simp add: Cons.IH ex_less_Suc)
qed



lemma settling_traversal:
  "traversal settlingResolver oneConstraint oneShape n =
     (if n < 2 then (True, Suc n) else (False, n))"
  by (simp add: traversal_def resolveShapeConstraints_def oneShape_def oneConstraint_def
      settlingResolver_def)

lemma settling_run:
  "resolveAllConstraints settlingResolver oneConstraint oneShape 3 0 = (False, 2, [])"
  by (simp add: resolveAllConstraints_def settling_traversal numeral_3_eq_3)


text \<open>
  Claim C8, amended. A resolver that throws is caught for its constraint alone: the
  loop of \<open>resolveShapeConstraints\<close> goes on exactly as if the resolver had completed
  and reported no change. Provided no resolver changes the shape's constraint array in
  place, the resolver of every constraint of the shape is called, once and in order,
  whatever throws (the resolvers being instrumented to record their calls); the result
  is the disjunction of the flags of the resolvers that completed, and the state is
  the state threaded through all the constraints. A traversal goes on to every
  remaining shape.
\<close>

theorem resolveShapeConstraints_catches_per_constraint:
  "resolveShapeConstraints (caught fn) constraints shape st =
     resolveShapeConstraints fn constraints shape st
   \<and> ((\<forall>c s. constraints st shape (outcomeState (fn c shape s)) = constraints st shape s) \<longrightarrow>
        resolveShapeConstraints (logged fn) (loggedField constraints) shape (st, calls) =
          (fst (resolveShapeConstraints fn constraints shape st),
           (snd (resolveShapeConstraints fn constraints shape st),
            calls @ elements (constraints st shape st)))
      \<and> fst (resolveShapeConstraints fn constraints shape st) =
          (\<exists>i<length (elements (constraints st shape st)). completedChanged
             (fn (elements (constraints st shape st) ! i) shape
                (foldl (\<lambda>s c. outcomeState (fn c shape s)) st
                   (take i (elements (constraints st shape st))))))
      \<and> snd (resolveShapeConstraints fn constraints shape st) =
          foldl (\<lambda>s c. outcomeState (fn c shape s)) st (elements (constraints st shape st)))
   \<and> snd (traverseShapes fn constraints ss changed st) =
       foldl (\<lambda>s sh. snd (resolveShapeConstraints fn constraints sh s)) st ss"
proof (intro conjI impI)
  show "resolveShapeConstraints (caught fn) constraints shape st =
     resolveShapeConstraints fn constraints shape st"
    by (simp add: resolveShapeConstraints_def forEach_caught)
next
  assume stable: "\<forall>c s. constraints st shape (outcomeState (fn c shape s)) = constraints st shape s"
  have run: "resolveShapeConstraints fn constraints shape st =
      visitAll fn shape (elements (constraints st shape st)) False st"
    using forEach_stable[of "constraints st shape" fn shape 0
        "length (constraints st shape st)" False st] stable
    by (simp add: resolveShapeConstraints_def Let_def)
  have lstable: "\<forall>c s. loggedField constraints (st, calls) shape
        (outcomeState (logged fn c shape s)) = loggedField constraints (st, calls) shape s"
  proof (intro allI)
    fix c s
    have "fst (outcomeState (logged fn c shape s)) = outcomeState (fn c shape (fst s))"
      by (cases "fn c shape (fst s)") (simp_all add: logged_def outcomeState_def)
    with stable show "loggedField constraints (st, calls) shape
        (outcomeState (logged fn c shape s)) = loggedField constraints (st, calls) shape s"
      by (simp add: loggedField_def)
  qed
  have lrun: "resolveShapeConstraints (logged fn) (loggedField constraints) shape (st, calls) =
      visitAll (logged fn) shape (elements (constraints st shape st)) False (st, calls)"
    using forEach_stable[of "loggedField constraints (st, calls) shape" "logged fn" shape 0
        "length (constraints st shape st)" False "(st, calls)"] lstable
    by (simp add: resolveShapeConstraints_def loggedField_def Let_def)
  show "resolveShapeConstraints (logged fn) (loggedField constraints) shape (st, calls) =
          (fst (resolveShapeConstraints fn constraints shape st),
           (snd (resolveShapeConstraints fn constraints shape st),
            calls @ elements (constraints st shape st)))"
    by (simp add: lrun run visitAll_logged)
  show "fst (resolveShapeConstraints fn constraints shape st) =
          (\<exists>i<length (elements (constraints st shape st)). completedChanged
             (fn (elements (constraints st shape st) ! i) shape
                (foldl (\<lambda>s c. outcomeState (fn c shape s)) st
                   (take i (elements (constraints st shape st))))))"
    by (simp add: run visitAll_flag)
  show "snd (resolveShapeConstraints fn constraints shape st) =
          foldl (\<lambda>s c. outcomeState (fn c shape s)) st (elements (constraints st shape st))"
    by (simp add: run visitAll_state)
next
  show "snd (traverseShapes fn constraints ss changed st) =
       foldl (\<lambda>s sh. snd (resolveShapeConstraints fn constraints sh s)) st ss"
    by (rule traverse_state)
qed

theorem resolveShapeConstraints_catches_per_constraint_witness:
  "resolveShapeConstraints (logged brokenThenChanged) (loggedField threeConstraints) () (0, []) =
     (True, (1, [0, 1, 2]))"
proof -
  have ev: "resolveShapeConstraints brokenThenChanged threeConstraints () 0 = (True, 1)"
    by (simp add: resolveShapeConstraints_def threeConstraints_def brokenThenChanged_def
        numeral_3_eq_3)
  have stable: "\<forall>c s. threeConstraints 0 () (outcomeState (brokenThenChanged c () s)) =
      threeConstraints 0 () s"
    by (simp add: threeConstraints_def)
  have "resolveShapeConstraints (logged brokenThenChanged) (loggedField threeConstraints) ()
      (0, []) =
     (fst (resolveShapeConstraints brokenThenChanged threeConstraints () 0),
      (snd (resolveShapeConstraints brokenThenChanged threeConstraints () 0),
       [] @ elements (threeConstraints 0 () 0)))"
    using resolveShapeConstraints_catches_per_constraint
          [of brokenThenChanged threeConstraints "()" 0 "[]" "[]" False] stable
    by blast
  then show ?thesis by (simp add: ev threeConstraints_def)
qed

text \<open>
  Claim C8 as stated fails for a resolver that changes the constraint array in place
  before it throws: of the constraints 0, 1, 2 the resolver of 0 removes 1 from the
  array and throws; \<open>forEach\<close> then finds 2 at index 1 and nothing at index 2, so the
  resolver of the remaining constraint 1 is never called, and the change it would
  report is not in the result.
\<close>

theorem remaining_constraint_skipped_counterexample:
  "resolveShapeConstraints (logged dropNextThenThrow) (loggedField liveConstraints) ()
      ([0, 1, 2], []) = (False, ([0, 2], [0, 2]))"
  by (simp add: resolveShapeConstraints_def loggedField_def liveConstraints_def logged_def
      dropNextThenThrow_def numeral_3_eq_3)

lemma forEach_flag_mono:
  "fst (constraintsForEach fn shape arr k n changed st) = False \<Longrightarrow> changed = False"
proof (induction n arbitrary: k changed st)
  case 0
  then show ?case by simp
next
  case (Suc n)
  show ?case
  proof (cases "k < length (arr st)")
    case False
    with Suc.prems Suc.IH[of "Suc k" changed st] show ?thesis by simp
  next
    case True
    show ?thesis
    proof (cases "arr st ! k")
      case None
      with True Suc.prems Suc.IH[of "Suc k" changed st] show ?thesis by simp
    next
      case (Some c)
      show ?thesis
      proof (cases "fn c shape st")
        case (Returned b st')
        with True Some Suc.prems Suc.IH[of "Suc k" "b \<or> changed" st'] show ?thesis by simp
      next
        case (Threw st')
        with True Some Suc.prems Suc.IH[of "Suc k" changed st'] show ?thesis by simp
      qed
    qed
  qed
qed

lemma forEach_quiet:
  assumes q: "\<forall>c sh s s'. (fn c sh s = Returned False s' \<or> fn c sh s = Threw s') \<longrightarrow> s' = s"
  shows "constraintsForEach fn shape arr k n changed st = (False, st') \<Longrightarrow> st' = st"
proof (induction n arbitrary: k changed st)
  case 0
  then show ?case by simp
next
  case (Suc n)
  show ?case
  proof (cases "k < length (arr st)")
    case False
    with Suc.prems Suc.IH[of "Suc k" changed st] show ?thesis by simp
  next
    case True
    show ?thesis
    proof (cases "arr st ! k")
      case None
      with True Suc.prems Suc.IH[of "Suc k" changed st] show ?thesis by simp
    next
      case (Some c)
      show ?thesis
      proof (cases "fn c shape st")
        case (Returned b s1)
        with True Some Suc.prems
        have r: "constraintsForEach fn shape arr (Suc k) n (b \<or> changed) s1 = (False, st')"
          by simp
        then have "(b \<or> changed) = False"
          using forEach_flag_mono[of fn shape arr "Suc k" n "b \<or> changed" s1] by simp
        then have "b = False" by simp
        with Returned q have "s1 = st" by blast
        with Suc.IH[OF r] show ?thesis by simp
      next
        case (Threw s1)
        with True Some Suc.prems
        have r: "constraintsForEach fn shape arr (Suc k) n changed s1 = (False, st')"
          by simp
        from Threw q have "s1 = st" by blast
        with Suc.IH[OF r] show ?thesis by simp
      qed
    qed
  qed
qed

lemma traverse_flag_mono:
  "fst (traverseShapes fn constraints ss changed st) = False \<Longrightarrow> changed = False"
  by (simp add: traverse_flag)

lemma traverse_quiet:
  assumes q: "\<forall>c sh s s'. (fn c sh s = Returned False s' \<or> fn c sh s = Threw s') \<longrightarrow> s' = s"
  shows "traverseShapes fn constraints ss changed st = (False, st') \<Longrightarrow> st' = st"
proof (induction ss arbitrary: changed st)
  case Nil
  then show ?case by simp
next
  case (Cons s ss)
  obtain b s1 where r1: "resolveShapeConstraints fn constraints s st = (b, s1)"
    by (cases "resolveShapeConstraints fn constraints s st")
  with Cons.prems have r: "traverseShapes fn constraints ss (b \<or> changed) s1 = (False, st')"
    by simp
  then have "(b \<or> changed) = False"
    using traverse_flag_mono[of fn constraints ss "b \<or> changed" s1] by simp
  then have "b = False" by simp
  with r1 have "s1 = st"
    using forEach_quiet[OF q, of s "constraints st s" 0 "length (constraints st s st)" False st s1]
    by (simp add: resolveShapeConstraints_def Let_def)
  with Cons.IH[OF r] show ?case by simp
qed

lemma resolveLoop_fixpoint:
  assumes q: "\<forall>s s'. trav s = (False, s') \<longrightarrow> s' = s"
  shows "resolveLoop trav m n st = (False, st', w) \<Longrightarrow> trav st' = (False, st') \<and> 0 < n"
proof (induction n arbitrary: st)
  case 0
  then show ?case by simp
next
  case (Suc n)
  obtain b s1 where t: "trav st = (b, s1)" by (cases "trav st")
  show ?case
  proof (cases b)
    case False
    with t Suc.prems have "s1 = st'" by simp
    moreover from t False q have "s1 = st" by simp
    ultimately show ?thesis using t False by simp
  next
    case True
    with t Suc.prems have "resolveLoop trav m n s1 = (False, st', w)" by simp
    from Suc.IH[OF this] show ?thesis by simp
  qed
qed

text \<open>
  Claim C9, amended. Provided every resolver that reports no change, and every resolver
  that throws, leaves the state (transaction and graph) as it found it: when a call of
  \<open>resolveAllConstraints\<close> returns false, an immediately repeated call on the state it
  left returns false as well, leaves that state unchanged and writes no warning.
\<close>

theorem resolveAllConstraints_idempotent_at_fixpoint:
  assumes q: "\<forall>c sh s s'. (fn c sh s = Returned False s' \<or> fn c sh s = Threw s') \<longrightarrow> s' = s"
    and r: "resolveAllConstraints fn constraints shapes maxIteration st = (False, st', w)"
  shows "resolveAllConstraints fn constraints shapes maxIteration st' = (False, st', [])"
proof -
  have tq: "\<forall>s s'. traversal fn constraints shapes s = (False, s') \<longrightarrow> s' = s"
    using traverse_quiet[OF q] by (simp add: traversal_def)
  from resolveLoop_fixpoint[OF tq] r
  have fx: "traversal fn constraints shapes st' = (False, st')" and pos: "0 < maxIteration"
    by (simp_all add: resolveAllConstraints_def)
  from pos obtain k where "maxIteration = Suc k" by (cases maxIteration) simp_all
  with fx show ?thesis by (simp add: resolveAllConstraints_def)
qed

lemma settling_quiet:
  "\<forall>c sh s s'. (settlingResolver c sh s = Returned False s' \<or> settlingResolver c sh s = Threw s')
     \<longrightarrow> s' = s"
  by (simp add: settlingResolver_def)

theorem resolveAllConstraints_idempotent_at_fixpoint_witness:
  "resolveAllConstraints settlingResolver oneConstraint oneShape 3 0 = (False, 2, [])
   \<and> resolveAllConstraints settlingResolver oneConstraint oneShape 3 2 = (False, 2, [])"
  using resolveAllConstraints_idempotent_at_fixpoint [OF settling_quiet settling_run] settling_run
  by simp

lemma emitThenThrow_traversal:
  "traversal emitThenThrow oneConstraint oneShape n = (False, Suc n)"
  by (simp add: traversal_def resolveShapeConstraints_def oneShape_def oneConstraint_def
      emitThenThrow_def)

text \<open>
  Without that proviso claim C9 fails: a resolver that emits a mutation and then throws
  makes the first call return false, and the repeated call emits a further mutation.
\<close>

theorem resolveAllConstraints_not_idempotent_counterexample:
  "resolveAllConstraints emitThenThrow oneConstraint oneShape 3 0 = (False, 1, [])
   \<and> resolveAllConstraints emitThenThrow oneConstraint oneShape 3 1 = (False, 2, [])"
  by (simp add: resolveAllConstraints_def emitThenThrow_traversal numeral_3_eq_3)

section \<open>Properties of the encoding of local transactions\<close>

lemmas example_defs = mkObj_def idOnly_def childEntry_def idJSON_def orderOf_def fieldOf_def
  widthValue_def firstChildHeap_def firstChildMap_def endHeap_def endMap_def midHeap_def
  midMap_def assignAction_def assignedMap_def live_def mapOf_def thrown_def

lemmas encode_defs = applyTransaction_def applyTransaction_plugin_def yStore_get_def
  getParentOrder_def getParentOrder_plugin_def getYChildren_def objToYObj_def
  elemAt_def valueAt_def indexOf_def Let_def








text \<open>
  The scenario of the spec, siblings with the order keys 0, 1, 2 and an insertion at
  position 1, gives the order key 1/2 with both encoders.
\<close>

lemma spec_scenario_half:
  "applyTransaction midHeap (idJSON midHeap) \<lparr>mutations = [INSERT_CHILD 0 4 1]\<rparr> midMap =
     Done (yStore_set ''X'' (childEntry ''X'' ''P'' (1 / 2)) midMap)
   \<and> applyTransaction_plugin midHeap (idJSON midHeap) \<lparr>mutations = [INSERT_CHILD 0 4 1]\<rparr> midMap =
     Done (yStore_set ''X'' (childEntry ''X'' ''P'' (1 / 2)) midMap)"
  by (simp add: example_defs encode_defs)


text \<open>
  Claim C3 (the code differs). The \<open>INSERT_CHILD\<close> branch of the yjs utilities writes
  the \<open>parent\<close> field before it calls \<open>getParentOrder\<close>, so the entry that is being
  inserted counts among the siblings it reads. The first child of a parent without
  other children then does not receive 0: its order key is \<open>NaN\<close> when its entry had no
  order key, and -1 when the \<open>CREATE\<close> of the same transaction had given it one. The
  plugin's encoder gives 0 on the same input. None of the three calls throws.
\<close>

theorem getParentOrder_counts_inserted_entry:
  "orderOf (mapOf (applyTransaction firstChildHeap (idJSON firstChildHeap)
      \<lparr>mutations = [INSERT_CHILD 0 1 0]\<rparr> firstChildMap)) ''X'' = Some (JNumber NaN)
   \<and> orderOf (mapOf (applyTransaction firstChildHeap (idJSON firstChildHeap)
      \<lparr>mutations = [CREATE 1, INSERT_CHILD 0 1 0]\<rparr> (live [(''P'', idOnly ''P'')]))) ''X''
        = Some (JNumber (Num (- 1)))
   \<and> orderOf (mapOf (applyTransaction_plugin firstChildHeap (idJSON firstChildHeap)
      \<lparr>mutations = [INSERT_CHILD 0 1 0]\<rparr> firstChildMap)) ''X'' = Some (JNumber (Num 0))
   \<and> \<not> thrown (applyTransaction firstChildHeap (idJSON firstChildHeap)
      \<lparr>mutations = [INSERT_CHILD 0 1 0]\<rparr> firstChildMap)
   \<and> \<not> thrown (applyTransaction firstChildHeap (idJSON firstChildHeap)
      \<lparr>mutations = [CREATE 1, INSERT_CHILD 0 1 0]\<rparr> (live [(''P'', idOnly ''P'')]))
   \<and> \<not> thrown (applyTransaction_plugin firstChildHeap (idJSON firstChildHeap)
      \<lparr>mutations = [INSERT_CHILD 0 1 0]\<rparr> firstChildMap)"
  by (simp add: example_defs encode_defs)

text \<open>
  Claim C6 (the code differs). With the yjs utilities an entity inserted at the end,
  behind its left neighbour \<open>B\<close> with the order key 0, receives the order key -1/2:
  \<open>getParentOrder\<close> indexes the entries of the replicated map in their iteration order,
  the inserted entry among them, and not the parent's children. When the entry had no
  order key before, the computed key is \<open>NaN\<close>. Neither call throws.
\<close>

theorem order_key_behind_left_neighbour:
  "orderOf (mapOf (applyTransaction endHeap (idJSON endHeap)
      \<lparr>mutations = [CREATE 3, INSERT_CHILD 0 3 2]\<rparr> endMap)) ''X'' = Some (JNumber (Num (- (1 / 2))))
   \<and> orderOf (mapOf (applyTransaction endHeap (idJSON endHeap)
      \<lparr>mutations = [CREATE 3, INSERT_CHILD 0 3 2]\<rparr> endMap)) ''B'' = Some (JNumber (Num 0))
   \<and> orderOf (mapOf (applyTransaction endHeap (idJSON endHeap)
      \<lparr>mutations = [INSERT_CHILD 0 3 2]\<rparr> (endMap @ live [(''X'', idOnly ''X'')]))) ''X''
        = Some (JNumber NaN)
   \<and> \<not> thrown (applyTransaction endHeap (idJSON endHeap)
      \<lparr>mutations = [CREATE 3, INSERT_CHILD 0 3 2]\<rparr> endMap)
   \<and> \<not> thrown (applyTransaction endHeap (idJSON endHeap)
      \<lparr>mutations = [INSERT_CHILD 0 3 2]\<rparr> (endMap @ live [(''X'', idOnly ''X'')]))"
  by (simp add: example_defs encode_defs)


























section \<open>Properties of the decoding of remote changes\<close>

lemmas remote_example_defs = mkObj_def idOnly_def childEntry_def lateHeap_def lateStore_def
  lateMap_def lateEvent_def moveHeap_def moveStore_def moveMap_def moveEvent_def
  onlyParentStore_def batchEvent_def childIds_def live_def

lemmas remote_defs = applyYjsEvent_def observeDeep_plugin_def handleEvent_plugin_def
  storeKeyChanged_plugin_def createObj_plugin_def updateKey_plugin_def updateKey_def
  setParent_def deleteObj_def yObjToObj_def resolveRefs_def addToIndex_def removeFromIndex_def
  removeFromChildren_def pushChild_def spliceChild_def setParentRef_def
  getYChildren_def js_ge_def splice_js_def indexOf_def yStore_get_def Let_def

lemma findIndex_absent: "\<forall>x \<in> set xs. \<not> p x \<Longrightarrow> findIndex p xs = - 1"
  by (induction xs) (simp_all add: Let_def)

lemma findIndex_present:
  "\<exists>x \<in> set xs. p x \<Longrightarrow>
   0 \<le> findIndex p xs \<and> findIndex p xs < int (length xs) \<and> p (xs ! nat (findIndex p xs))
   \<and> (\<forall>j < nat (findIndex p xs). \<not> p (xs ! j))"
proof (induction xs)
  case Nil
  then show ?case by simp
next
  case (Cons x xs)
  show ?case
  proof (cases "p x")
    case True
    then show ?thesis by simp
  next
    case False
    with Cons.prems have "\<exists>x \<in> set xs. p x" by simp
    from Cons.IH[OF this] False show ?thesis
      by (auto simp add: Let_def nat_add_distrib nth_Cons split: nat.splits)
  qed
qed

lemma indexOf_absent: "x \<notin> set xs \<Longrightarrow> indexOf x xs = - 1"
  unfolding indexOf_def by (rule findIndex_absent) auto

lemma indexOf_remove1:
  "x \<in> set xs \<Longrightarrow>
   0 \<le> indexOf x xs \<and>
   take (nat (indexOf x xs)) xs @ drop (Suc (nat (indexOf x xs))) xs = remove1 x xs"
proof (induction xs)
  case Nil
  then show ?case by simp
next
  case (Cons y ys)
  show ?case
  proof (cases "y = x")
    case True
    then show ?thesis by (simp add: indexOf_def)
  next
    case False
    with Cons.prems have m: "x \<in> set ys" by simp
    from Cons.IH[OF m] have i0: "0 \<le> indexOf x ys"
      and eq: "take (nat (indexOf x ys)) ys @ drop (Suc (nat (indexOf x ys))) ys = remove1 x ys"
      by simp_all
    have ix: "indexOf x (y # ys) = indexOf x ys + 1"
      using False i0 by (simp add: indexOf_def Let_def)
    have "nat (indexOf x ys + 1) = Suc (nat (indexOf x ys))" using i0 by simp
    with ix eq False i0 show ?thesis by simp
  qed
qed

lemma splice_indexOf_present:
  "x \<in> set xs \<Longrightarrow> splice_js (indexOf x xs) (Suc 0) [] xs = remove1 x xs"
proof -
  assume m: "x \<in> set xs"
  then have "\<exists>y \<in> set xs. y = x" by simp
  from findIndex_present[OF this] have lt: "indexOf x xs < int (length xs)" and ge: "0 \<le> indexOf x xs"
    by (simp_all add: indexOf_def)
  from indexOf_remove1[OF m] lt ge show ?thesis
    by (simp add: splice_js_def Let_def min_def)
qed

lemma splice_indexOf_absent:
  "x \<notin> set xs \<Longrightarrow> splice_js (indexOf x xs) (Suc 0) [] xs = butlast xs"
  by (cases xs rule: rev_cases) (simp_all add: splice_js_def indexOf_absent Let_def)

lemma splice_indexOf_gone:
  "distinct xs \<Longrightarrow> x \<notin> set (splice_js (indexOf x xs) (Suc 0) [] xs)"
proof (cases "x \<in> set xs")
  case True
  assume "distinct xs"
  with True show ?thesis by (simp add: splice_indexOf_present)
next
  case False
  then show ?thesis by (auto simp add: splice_indexOf_absent dest: in_set_butlastD)
qed





subsection \<open>setParent keeps the structure of the store\<close>

lemma indexOf_neg_iff: "(indexOf x xs < 0) = (x \<notin> set xs)"
proof (cases "x \<in> set xs")
  case True
  then have "\<exists>y \<in> set xs. y = x" by simp
  from findIndex_present[OF this] True show ?thesis by (simp add: indexOf_def)
next
  case False
  then show ?thesis by (simp add: indexOf_absent)
qed

lemma splice_js_insert:
  "\<exists>s. splice_js pos 0 [x] xs = take s xs @ [x] @ drop s xs"
  by (auto simp add: splice_js_def Let_def)

lemma set_splice_js_insert: "set (splice_js pos 0 [x] xs) = insert x (set xs)"
proof -
  obtain s where s: "splice_js pos 0 [x] xs = take s xs @ [x] @ drop s xs"
    using splice_js_insert[of pos x xs] by blast
  have "set (take s xs) \<union> set (drop s xs) = set xs"
    by (metis append_take_drop_id set_append)
  with s show ?thesis by auto
qed

lemma distinct_splice_js_insert:
  assumes nx: "x \<notin> set xs" and d: "distinct xs"
  shows "distinct (splice_js pos 0 [x] xs)"
proof -
  obtain s where s: "splice_js pos 0 [x] xs = take s xs @ [x] @ drop s xs"
    using splice_js_insert[of pos x xs] by blast
  have "distinct (take s xs @ drop s xs)" using d by simp
  then have "distinct (take s xs)" "distinct (drop s xs)" "set (take s xs) \<inter> set (drop s xs) = {}"
    by (simp_all only: distinct_append)
  moreover have "x \<notin> set (take s xs)" "x \<notin> set (drop s xs)"
    using nx by (auto dest: in_set_takeD in_set_dropD)
  ultimately show ?thesis using s by auto
qed

lemma children_setParentRef [simp]: "children (setParentRef a x h q) = children (h q)"
  by (simp add: setParentRef_def)

lemma oid_setParentRef [simp]: "oid (setParentRef a x h q) = oid (h q)"
  by (simp add: setParentRef_def)

lemma parent_setParentRef [simp]: "parent (setParentRef a x h q) = (if q = a then x else parent (h q))"
  by (simp add: setParentRef_def)

lemma setParent_heap_cases:
  "heap (setParent st yStore a parentId parentOrder) =
     (let h1 = (case detached (heap st) a parentId of
                  Some p \<Rightarrow> removeFromChildren p a (heap st)
                | None \<Rightarrow> heap st)
      in case newParent st parentId of
           None \<Rightarrow> setParentRef a None h1
         | Some p \<Rightarrow>
             if a \<in> set (children (h1 p)) then setParentRef a (Some p) h1
             else (let position = findIndex (\<lambda>v. js_ge v parentOrder)
                         (map (\<lambda>yChild. yChild ''parent:order'') (getYChildren yStore parentId))
                   in if position < 0 then pushChild p a (setParentRef a (Some p) h1)
                      else spliceChild p position a (setParentRef a (Some p) h1)))"
proof -
  have h1: "(case parent (heap st a) of
               Some p \<Rightarrow> if Some (JString (oid (heap st p))) \<noteq> parentId
                          then removeFromChildren p a (heap st) else heap st
             | None \<Rightarrow> heap st) =
            (case detached (heap st) a parentId of
               Some p \<Rightarrow> removeFromChildren p a (heap st)
             | None \<Rightarrow> heap st)"
    by (cases "parent (heap st a)") (simp_all add: detached_def)
  show ?thesis
    unfolding setParent_def Let_def h1 newParent_def
    by (cases "truthy parentId"; cases "getById st parentId") (simp_all add: indexOf_neg_iff)
qed

lemma setParent_index: "idIndex (setParent st yStore a parentId parentOrder) = idIndex st"
  by (simp add: setParent_def Let_def)

lemma oid_removeFromChildren [simp]: "oid (removeFromChildren p a h q) = oid (h q)"
  by (simp add: removeFromChildren_def)

lemma parent_removeFromChildren [simp]: "parent (removeFromChildren p a h q) = parent (h q)"
  by (simp add: removeFromChildren_def)

lemma children_removeFromChildren:
  "children (removeFromChildren p a h q) =
     (if q = p then splice_js (indexOf a (children (h p))) 1 [] (children (h p)) else children (h q))"
  by (simp add: removeFromChildren_def)

lemma oid_pushChild [simp]: "oid (pushChild p a h q) = oid (h q)"
  by (simp add: pushChild_def)

lemma parent_pushChild [simp]: "parent (pushChild p a h q) = parent (h q)"
  by (simp add: pushChild_def)

lemma children_pushChild:
  "children (pushChild p a h q) = (if q = p then children (h p) @ [a] else children (h q))"
  by (simp add: pushChild_def)

lemma oid_spliceChild [simp]: "oid (spliceChild p i a h q) = oid (h q)"
  by (simp add: spliceChild_def)

lemma parent_spliceChild [simp]: "parent (spliceChild p i a h q) = parent (h q)"
  by (simp add: spliceChild_def)

lemma children_spliceChild:
  "children (spliceChild p i a h q) =
     (if q = p then splice_js i 0 [a] (children (h p)) else children (h q))"
  by (simp add: spliceChild_def)

lemma setParent_oid:
  "oid (heap (setParent st yStore a parentId parentOrder) x) = oid (heap st x)"
  by (simp add: setParent_heap_cases Let_def split: option.splits)

lemma setParent_parent:
  "parent (heap (setParent st yStore a parentId parentOrder) x) =
     (if x = a then newParent st parentId else parent (heap st x))"
  by (simp add: setParent_heap_cases Let_def split: option.splits)

lemma children_h1:
  "children ((case detached h a parentId of
                Some p \<Rightarrow> removeFromChildren p a h
              | None \<Rightarrow> h) q) = afterDetach h a parentId q"
  by (cases "detached h a parentId") (simp_all add: afterDetach_def children_removeFromChildren)

lemma setParent_children_set:
  "set (children (heap (setParent st yStore a parentId parentOrder) q)) =
     (if newParent st parentId = Some q then insert a (set (afterDetach (heap st) a parentId q))
      else set (afterDetach (heap st) a parentId q))"
proof (cases "newParent st parentId")
  case None
  then show ?thesis by (simp add: setParent_heap_cases Let_def children_h1)
next
  case (Some p)
  then show ?thesis
    by (auto simp add: setParent_heap_cases Let_def children_h1 children_pushChild
        children_spliceChild set_splice_js_insert)
qed

lemma setParent_children_distinct:
  assumes "distinct (afterDetach (heap st) a parentId q)"
  shows "distinct (children (heap (setParent st yStore a parentId parentOrder) q))"
proof (cases "newParent st parentId")
  case None
  with assms show ?thesis by (simp add: setParent_heap_cases Let_def children_h1)
next
  case (Some p)
  with assms show ?thesis
    by (auto simp add: setParent_heap_cases Let_def children_h1 children_pushChild
        children_spliceChild distinct_splice_js_insert)
qed

lemma wf_indexed:
  "storeWellFormed st \<Longrightarrow> p \<in> ran (idIndex st) \<Longrightarrow> idIndex st (oid (heap st p)) = Some p"
  by (auto simp add: storeWellFormed_def ran_def)

lemma wf_agree:
  "storeWellFormed st \<Longrightarrow> p \<in> ran (idIndex st) \<Longrightarrow> c \<in> ran (idIndex st) \<Longrightarrow>
   (c \<in> set (children (heap st p))) = (parent (heap st c) = Some p)"
  by (simp add: storeWellFormed_def parentChildrenAgree_def)

lemma wf_distinct:
  "storeWellFormed st \<Longrightarrow> p \<in> ran (idIndex st) \<Longrightarrow> distinct (children (heap st p))"
  by (simp add: storeWellFormed_def)

lemma detached_parent: "detached h a parentId = Some q \<Longrightarrow> parent (h a) = Some q"
  by (cases "parent (h a)") (auto simp add: detached_def split: if_splits)

lemma not_detached_newParent:
  assumes wf: "storeWellFormed st" and q: "q \<in> ran (idIndex st)"
    and par: "parent (heap st a) = Some q" and nd: "detached (heap st) a parentId \<noteq> Some q"
  shows "newParent st parentId = Some q"
proof -
  have e: "detached (heap st) a parentId =
      (if Some (JString (oid (heap st q))) = parentId then None else Some q)"
    using par by (simp add: detached_def)
  have pid: "Some (JString (oid (heap st q))) = parentId"
  proof (rule ccontr)
    assume "Some (JString (oid (heap st q))) \<noteq> parentId"
    with e have "detached (heap st) a parentId = Some q" by simp
    with nd show False by simp
  qed
  from wf_indexed[OF wf q] have ix: "idIndex st (oid (heap st q)) = Some q" .
  have ne: "oid (heap st q) \<noteq> []"
  proof
    assume "oid (heap st q) = []"
    with ix have "idIndex st [] = Some q" by simp
    moreover from wf have "idIndex st [] = None" by (simp add: storeWellFormed_def)
    ultimately show False by simp
  qed
  have "newParent st (Some (JString (oid (heap st q)))) = Some q"
    using ix ne by (simp add: newParent_def)
  then show ?thesis unfolding pid .
qed

lemma afterDetach_member:
  assumes wf: "storeWellFormed st" and a: "a \<in> ran (idIndex st)" and q: "q \<in> ran (idIndex st)"
    and c: "c \<in> ran (idIndex st)"
  shows "(c \<in> set (afterDetach (heap st) a parentId q)) =
         (parent (heap st c) = Some q \<and> \<not> (c = a \<and> detached (heap st) a parentId = Some q))"
proof (cases "detached (heap st) a parentId = Some q")
  case True
  then have "parent (heap st a) = Some q" by (rule detached_parent)
  with wf_agree[OF wf q a] have ain: "a \<in> set (children (heap st q))" by simp
  have d: "distinct (children (heap st q))" by (rule wf_distinct[OF wf q])
  from True splice_indexOf_present[OF ain]
  have "afterDetach (heap st) a parentId q = remove1 a (children (heap st q))"
    by (simp add: afterDetach_def)
  with d True wf_agree[OF wf q c] show ?thesis by auto
next
  case False
  with wf_agree[OF wf q c] show ?thesis by (simp add: afterDetach_def)
qed

lemma afterDetach_distinct:
  assumes wf: "storeWellFormed st" and a: "a \<in> ran (idIndex st)" and q: "q \<in> ran (idIndex st)"
  shows "distinct (afterDetach (heap st) a parentId q)"
proof (cases "detached (heap st) a parentId = Some q")
  case True
  then have "parent (heap st a) = Some q" by (rule detached_parent)
  with wf_agree[OF wf q a] have ain: "a \<in> set (children (heap st q))" by simp
  from True splice_indexOf_present[OF ain]
  have "afterDetach (heap st) a parentId q = remove1 a (children (heap st q))"
    by (simp add: afterDetach_def)
  with wf_distinct[OF wf q] show ?thesis by simp
next
  case False
  with wf_distinct[OF wf q] show ?thesis by (simp add: afterDetach_def)
qed

lemma setParent_preserves_structure:
  assumes wf: "storeWellFormed st" and a: "a \<in> ran (idIndex st)"
  shows "storeWellFormed (setParent st yStore a parentId parentOrder)"
proof -
  let ?st' = "setParent st yStore a parentId parentOrder"
  have ran': "ran (idIndex ?st') = ran (idIndex st)" by (simp add: setParent_index)
  have ids: "\<forall>k b. idIndex ?st' k = Some b \<longrightarrow> oid (heap ?st' b) = k"
    using wf by (simp add: setParent_index setParent_oid storeWellFormed_def)
  have noempty: "idIndex ?st' [] = None"
    using wf by (simp add: setParent_index storeWellFormed_def)
  have dist: "distinct (children (heap ?st' q))" if q: "q \<in> ran (idIndex st)" for q
    by (rule setParent_children_distinct[OF afterDetach_distinct[OF wf a q]])
  have agree: "(c \<in> set (children (heap ?st' q))) = (parent (heap ?st' c) = Some q)"
    if q: "q \<in> ran (idIndex st)" and c: "c \<in> ran (idIndex st)" for q c
  proof (cases "c = a")
    case True
    show ?thesis
    proof (cases "newParent st parentId = Some q")
      case np: True
      with True show ?thesis by (simp add: setParent_children_set setParent_parent)
    next
      case np: False
      have "a \<notin> set (afterDetach (heap st) a parentId q)"
      proof
        assume "a \<in> set (afterDetach (heap st) a parentId q)"
        with afterDetach_member[OF wf a q a]
        have "parent (heap st a) = Some q" "detached (heap st) a parentId \<noteq> Some q" by simp_all
        from not_detached_newParent[OF wf q this] np show False by simp
      qed
      with np True show ?thesis by (simp add: setParent_children_set setParent_parent)
    qed
  next
    case False
    with afterDetach_member[OF wf a q c] show ?thesis
      by (simp add: setParent_children_set setParent_parent)
  qed
  have "\<forall>p \<in> ran (idIndex st). distinct (children (heap ?st' p))" using dist by blast
  moreover have "\<forall>p \<in> ran (idIndex st). \<forall>c \<in> ran (idIndex st).
      (c \<in> set (children (heap ?st' p))) = (parent (heap ?st' c) = Some p)"
    using agree by blast
  ultimately show ?thesis
    unfolding storeWellFormed_def parentChildrenAgree_def ran'
    using ids noempty by simp
qed

text \<open>The store of the move example is well formed.\<close>

lemma moveStore_ran: "idIndex moveStore k = Some a \<Longrightarrow> a \<in> {0, 1, 2}"
  by (simp add: moveStore_def split: if_splits)

lemma moveStore_ids: "idIndex moveStore k = Some a \<Longrightarrow> oid (heap moveStore a) = k"
  by (simp add: moveStore_def moveHeap_def mkObj_def split: if_splits)

lemma moveStore_wellFormed: "storeWellFormed moveStore"
proof -
  have sub: "ran (idIndex moveStore) \<subseteq> {0, 1, 2}"
    using moveStore_ran by (auto simp add: ran_def)
  have d: "\<forall>p \<in> {0, 1, 2}. distinct (children (heap moveStore p))"
    by (simp add: moveStore_def moveHeap_def mkObj_def)
  have ag: "\<forall>p \<in> {0, 1, 2}. \<forall>c \<in> {0, 1, 2}.
      (c \<in> set (children (heap moveStore p))) = (parent (heap moveStore c) = Some p)"
    by (simp add: moveStore_def moveHeap_def mkObj_def)
  have e: "idIndex moveStore [] = None" by (simp add: moveStore_def)
  from d sub have d': "\<forall>p \<in> ran (idIndex moveStore). distinct (children (heap moveStore p))"
    by blast
  from ag sub have ag': "\<forall>p \<in> ran (idIndex moveStore). \<forall>c \<in> ran (idIndex moveStore).
      (c \<in> set (children (heap moveStore p))) = (parent (heap moveStore c) = Some p)"
    by blast
  show ?thesis
    unfolding storeWellFormed_def parentChildrenAgree_def
    using e moveStore_ids d' ag' by blast
qed

lemma setRef_preserves: "storeWellFormed st \<Longrightarrow> storeWellFormed (setRef a key r st)"
  by (simp add: storeWellFormed_def parentChildrenAgree_def setRef_def)

lemma setProp_preserves: "storeWellFormed st \<Longrightarrow> storeWellFormed (setProp a key v st)"
  by (simp add: storeWellFormed_def parentChildrenAgree_def setProp_def)

lemma updateKey_index: "idIndex (updateKey yStore yObj a key st) = idIndex st"
  by (simp add: updateKey_def setParent_index setRef_def setProp_def)

lemma updateKey_preserves:
  "storeWellFormed st \<Longrightarrow> a \<in> ran (idIndex st) \<Longrightarrow>
   storeWellFormed (updateKey yStore yObj a key st)"
  by (simp add: updateKey_def setParent_preserves_structure setRef_preserves setProp_preserves)

lemma updateKeys_preserves:
  "storeWellFormed st \<Longrightarrow> a \<in> ran (idIndex st) \<Longrightarrow>
   storeWellFormed (updateKeys yStore yObj a keys st)"
proof (induction keys arbitrary: st)
  case Nil
  then show ?case by simp
next
  case (Cons key keys)
  from Cons.prems have "storeWellFormed (updateKey yStore yObj a key st)"
    by (simp add: updateKey_preserves)
  moreover from Cons.prems have "a \<in> ran (idIndex (updateKey yStore yObj a key st))"
    by (simp add: updateKey_index)
  ultimately show ?case using Cons.IH by simp
qed

lemma getById_ran: "getById st v = Some a \<Longrightarrow> a \<in> ran (idIndex st)"
  by (cases "(st, v)" rule: getById.cases) (auto intro: ranI)

lemma applyObjChange_preserves:
  "storeWellFormed st \<Longrightarrow> storeWellFormed (applyObjChange yStore tgt keys c st)"
proof (cases c)
  case (Pair key act)
  assume wf: "storeWellFormed st"
  show ?thesis
  proof (cases act)
    case Update
    show ?thesis
    proof (cases "getById st (tgt ''id'')")
      case None
      with Pair Update wf show ?thesis by simp
    next
      case (Some a)
      with Pair Update wf updateKeys_preserves[OF wf getById_ran[OF Some]] show ?thesis
        by (cases "yStore_getV yStore (tgt ''id'')") simp_all
    qed
  qed (use Pair wf in simp_all)
qed

text \<open>
  The decoder of the yjs utilities: whatever fields an update notification names, the
  decoded store keeps its structure, and an update of \<open>parent\<close> alone is one call of
  \<open>setParent\<close>, which moves the entity from its former parent to the new one.
\<close>

lemma applyYjsEvent_update_preserves_structure:
  assumes wf: "storeWellFormed st" and t: "target event = AnObj tgt"
  shows "storeWellFormed (applyYjsEvent event st yStore)"
proof -
  have "storeWellFormed (foldl (\<lambda>s c. applyObjChange yStore tgt keys c s) st cs)" for keys cs
    using wf
  proof (induction cs arbitrary: st)
    case Nil
    then show ?case by simp
  next
    case (Cons c cs)
    then show ?case by (simp add: applyObjChange_preserves)
  qed
  with t show ?thesis by (simp add: applyYjsEvent_def)
qed

lemma applyYjsEvent_parent_update:
  assumes "target event = AnObj tgt" and "changes event = [(''parent'', Update)]"
    and "keysChanged event = [''parent'']"
    and "getById st (tgt ''id'') = Some a" and "yStore_getV yStore (tgt ''id'') = Some yObj"
  shows "applyYjsEvent event st yStore =
           setParent st yStore a (yObj ''parent'') (yObj ''parent:order'')"
  using assms by (simp add: applyYjsEvent_def updateKey_def)

lemma setParent_reparents:
  assumes wf: "storeWellFormed st" and a: "a \<in> ran (idIndex st)"
    and old: "parent (heap st a) = Some p0" and p0: "p0 \<in> ran (idIndex st)"
    and new: "getById st parentId = Some p" and ne: "p \<noteq> p0"
  shows "parent (heap (setParent st yStore a parentId parentOrder) a) = Some p
       \<and> a \<in> set (children (heap (setParent st yStore a parentId parentOrder) p))
       \<and> a \<notin> set (children (heap (setParent st yStore a parentId parentOrder) p0))"
proof -
  from new obtain k where k: "parentId = Some (JString k)" "idIndex st k = Some p"
    by (cases "(st, parentId)" rule: getById.cases) auto
  from wf k have "k \<noteq> []" by (auto simp add: storeWellFormed_def)
  with k new have np: "newParent st parentId = Some p" by (simp add: newParent_def)
  from k have p: "p \<in> ran (idIndex st)" by (auto intro: ranI)
  have wf': "storeWellFormed (setParent st yStore a parentId parentOrder)"
    by (rule setParent_preserves_structure[OF wf a])
  have par: "parent (heap (setParent st yStore a parentId parentOrder) a) = Some p"
    using np by (simp add: setParent_parent)
  have r: "ran (idIndex (setParent st yStore a parentId parentOrder)) = ran (idIndex st)"
    by (simp add: setParent_index)
  from wf_agree[OF wf', of p a] wf_agree[OF wf', of p0 a] par ne p p0 a r show ?thesis
    by simp
qed

text \<open>
  Claim C1 (the code differs). The plugin's observer handles an update of the field
  \<open>parent\<close> by appending the entity to the children of the new parent: it does not
  detach it from the former parent and does not read \<open>parent:order\<close>. After the move of
  \<open>X\<close> from \<open>P1\<close> to \<open>P2\<close> the children of \<open>P1\<close> still hold \<open>X\<close> while the parent of
  \<open>X\<close> is \<open>P2\<close>, all three being entities of the index. \<open>applyYjsEvent\<close> of the yjs
  utilities detaches \<open>X\<close> on the same input.
\<close>

theorem plugin_update_keeps_old_parent:
  "children (heap (observeDeep_plugin moveMap [moveEvent] False moveStore) 0) = [2]
   \<and> children (heap (observeDeep_plugin moveMap [moveEvent] False moveStore) 1) = [2]
   \<and> parent (heap (observeDeep_plugin moveMap [moveEvent] False moveStore) 2) = Some 1
   \<and> idIndex (observeDeep_plugin moveMap [moveEvent] False moveStore) ''P1'' = Some 0
   \<and> idIndex (observeDeep_plugin moveMap [moveEvent] False moveStore) ''X'' = Some 2
   \<and> children (heap (applyYjsEvent moveEvent moveStore moveMap) 0) = []
   \<and> children (heap (applyYjsEvent moveEvent moveStore moveMap) 1) = [2]
   \<and> parent (heap (applyYjsEvent moveEvent moveStore moveMap) 2) = Some 1"
  by (simp add: remote_example_defs remote_defs)

text \<open>
  Claim C4 (the code differs). The position of a new entity is the index, among the
  entries of the replicated map with the same parent in the map's iteration order (the
  new entry included), of the first entry whose order key is not below its own; that
  index is then used as a position in the local children. The late sibling \<open>Z\<close> (order
  3/4) is placed at position 1, before \<open>X\<close> (order 1/2), and not before \<open>B\<close> (order 1),
  the first local sibling whose order key is not below its own. Both decoders do so.
\<close>

theorem late_sibling_misplaced:
  "childIds lateStore 0 = [''A'', ''X'', ''B'']
   \<and> childIds (applyYjsEvent lateEvent lateStore lateMap) 0 = [''A'', ''Z'', ''X'', ''B'']
   \<and> parent (heap (applyYjsEvent lateEvent lateStore lateMap) 4) = Some 0
   \<and> childIds (observeDeep_plugin lateMap [lateEvent] False lateStore) 0 = [''A'', ''Z'', ''X'', ''B'']
   \<and> parent (heap (observeDeep_plugin lateMap [lateEvent] False lateStore) 4) = Some 0"
  by (simp add: remote_example_defs remote_defs)

text \<open>
  The same order results when the four creations arrive in one notification at a peer
  that has materialized the parent only.
\<close>

lemma batch_arrival_misplaced:
  "childIds (applyYjsEvent batchEvent onlyParentStore lateMap) 0 = [''A'', ''Z'', ''X'', ''B'']"
  by (simp add: remote_example_defs remote_defs)









end
